theory Spec2Isabelle
  imports Main
begin

section \<open>Identity strings and the classifier \<^verbatim>\<open>validateUserType\<close>\<close>

text \<open>
  The realtime part of \<^verbatim>\<open>BACKEND/server.js\<close>: the module-level map
  \<^verbatim>\<open>userSockets\<close>, the classifier \<^verbatim>\<open>validateUserType\<close>, the Socket.IO
  connection handlers and the notification code of the HTTP routes.

  A JavaScript string is modelled as a \<^typ>\<open>string\<close>. The three tests the classifier
  makes (a fixed ASCII prefix, the presence of the ASCII underscore, and 24 ASCII hex
  digits from start to end) give the same answer on the UTF-8 bytes of a string as on
  its UTF-16 code units. An absent argument (\<^verbatim>\<open>undefined\<close>, \<^verbatim>\<open>null\<close>) is \<^term>\<open>None\<close>.
  Identities are strings or absent; a client that sends a number or an object instead
  is outside the model.
\<close>

definition startsWith :: "string \<Rightarrow> string \<Rightarrow> bool" where
  "startsWith s p = (take (length p) s = p)"

definition includes_char :: "string \<Rightarrow> char \<Rightarrow> bool" where
  "includes_char s c = (c \<in> set s)"

definition hex_digit :: "char \<Rightarrow> bool" where
  "hex_digit c = (c \<in> set ''0123456789abcdefABCDEF'')"

text \<open>\<^verbatim>\<open>userId.match(/^[0-9a-f]{24}$/i)\<close>: without the \<^verbatim>\<open>m\<close> flag the anchors are
  the two ends of the input.\<close>

definition match_hex24 :: "string \<Rightarrow> bool" where
  "match_hex24 s = (length s = 24 \<and> list_all hex_digit s)"

text \<open>JavaScript truthiness of a value that is absent or a string.\<close>

fun truthy :: "string option \<Rightarrow> bool" where
  "truthy None = False"
| "truthy (Some s) = (s \<noteq> [])"

text \<open>The object \<^verbatim>\<open>validateUserType\<close> returns: \<^verbatim>\<open>{valid: false, message}\<close> or
  \<^verbatim>\<open>{valid: true, isAdmin, userType, message}\<close>.\<close>

datatype validation =
    Invalid string
  | Valid bool string string

fun valid :: "validation \<Rightarrow> bool" where
  "valid (Invalid m) = False"
| "valid (Valid a t m) = True"

fun role :: "validation \<Rightarrow> string option" where
  "role (Invalid m) = None"
| "role (Valid a t m) = Some t"

definition validateUserType :: "string option \<Rightarrow> validation" where
  "validateUserType userId =
     (case userId of
        None \<Rightarrow> Invalid ''No userId provided''
      | Some s \<Rightarrow>
          if s = [] then Invalid ''No userId provided''
          else
            let isAdmin = startsWith s ''admin_'';
                isRegularUser = (includes_char s CHR ''_'' \<or> match_hex24 s)
            in if \<not> isAdmin \<and> \<not> isRegularUser then Invalid ''Invalid userId format''
               else Valid isAdmin
                      (if isAdmin then ''admin'' else ''user'')
                      (''Valid '' @ (if isAdmin then ''admin'' else ''regular'') @ '' user''))"

section \<open>The registry: a JavaScript \<^verbatim>\<open>Map\<close>\<close>

text \<open>
  A \<^verbatim>\<open>Map\<close> keeps its entries in insertion order; \<^verbatim>\<open>set\<close> on a key that is present
  replaces the value in place, \<^verbatim>\<open>delete\<close> removes the key's entry, and
  \<^verbatim>\<open>entries()\<close> iterates in order. It is modelled as the list of its entries.
\<close>

type_synonym ('k, 'v) jsmap = "('k \<times> 'v) list"

fun jsmap_set :: "'k \<Rightarrow> 'v \<Rightarrow> ('k, 'v) jsmap \<Rightarrow> ('k, 'v) jsmap" where
  "jsmap_set k v [] = [(k, v)]"
| "jsmap_set k v ((k', v') # m) =
     (if k' = k then (k, v) # m else (k', v') # jsmap_set k v m)"

fun jsmap_get :: "'k \<Rightarrow> ('k, 'v) jsmap \<Rightarrow> 'v option" where
  "jsmap_get k [] = None"
| "jsmap_get k ((k', v') # m) = (if k' = k then Some v' else jsmap_get k m)"

fun jsmap_delete :: "'k \<Rightarrow> ('k, 'v) jsmap \<Rightarrow> ('k, 'v) jsmap" where
  "jsmap_delete k [] = []"
| "jsmap_delete k ((k', v') # m) =
     (if k' = k then m else (k', v') # jsmap_delete k m)"

definition keys :: "('k, 'v) jsmap \<Rightarrow> 'k list" where
  "keys m = map fst m"

section \<open>Sockets, timers and the server state\<close>

text \<open>
  The timer \<^verbatim>\<open>authTimeout\<close> of a connection: armed with the time at which it is
  due, cancelled by \<^verbatim>\<open>clearTimeout\<close>, or already run.
\<close>

datatype timer = Pending nat | Cleared | Fired

fun clearTimeout :: "timer \<Rightarrow> timer" where
  "clearTimeout (Pending t) = Cleared"
| "clearTimeout Cleared = Cleared"
| "clearTimeout Fired = Fired"

text \<open>
  The fields the handlers read and write on a \<^verbatim>\<open>socket\<close>, with \<^term>\<open>None\<close> for a
  property that was never assigned. A connection is named by its index in the list of
  all connections accepted so far; Socket.IO gives each a fresh, non-empty
  \<^verbatim>\<open>socket.id\<close>, so the index stands for that id and a stored id is always truthy.
\<close>

record socket =
  userId :: "string option"
  isAdmin :: "bool option"
  userType :: "string option"
  connected :: bool
  authTimeout :: timer

record server =
  userSockets :: "(string, nat) jsmap"
  sockets :: "socket list"
  now :: nat

definition init_server :: server where
  "init_server = \<lparr>userSockets = [], sockets = [], now = 0\<rparr>"

text \<open>What the server sends: \<^verbatim>\<open>socket.emit\<close> and \<^verbatim>\<open>io.to(id).emit\<close> address one
  connection, \<^verbatim>\<open>io.emit\<close> addresses all.\<close>

datatype dest = ToSocket nat | ToAll

text \<open>The connections an emission is addressed to.\<close>

fun reaches :: "dest \<Rightarrow> nat \<Rightarrow> bool" where
  "reaches (ToSocket s) sid = (s = sid)"
| "reaches ToAll sid = True"

type_synonym 'p emission = "dest \<times> string \<times> 'p"

type_synonym payload = "(string \<times> string option) list"

text \<open>A value inside a template literal: \<^verbatim>\<open>undefined\<close> prints as that word.\<close>

fun template :: "string option \<Rightarrow> string" where
  "template None = ''undefined''"
| "template (Some s) = s"

definition AUTH_TIMEOUT :: nat where
  "AUTH_TIMEOUT = 30000"

text \<open>\<^verbatim>\<open>io.on("connection", ...)\<close>: a new socket, its timer armed 30000 ms ahead.\<close>

definition on_connection :: "server \<Rightarrow> server" where
  "on_connection st =
     st\<lparr>sockets := sockets st @
          [\<lparr>userId = None, isAdmin = None, userType = None, connected = True,
            authTimeout = Pending (now st + AUTH_TIMEOUT)\<rparr>]\<rparr>"

definition upd_socket :: "nat \<Rightarrow> (socket \<Rightarrow> socket) \<Rightarrow> server \<Rightarrow> server" where
  "upd_socket s f st = st\<lparr>sockets := (sockets st)[s := f (sockets st ! s)]\<rparr>"

text \<open>
  \<^verbatim>\<open>socket.on("authenticate", (userId) => ...)\<close>. The timer is cleared first, whatever
  the validation says. (\<^verbatim>\<open>validateUserType\<close> never accepts an absent id, so the last
  branch is not taken.)
\<close>

definition on_authenticate :: "nat \<Rightarrow> string option \<Rightarrow> server \<Rightarrow> payload emission list \<times> server" where
  "on_authenticate s uid st =
     (let st1 = upd_socket s (\<lambda>k. k\<lparr>authTimeout := clearTimeout (authTimeout k)\<rparr>) st
      in case validateUserType uid of
           Invalid msg \<Rightarrow> ([(ToSocket s, ''auth_error'', [(''message'', Some msg)])], st1)
         | Valid adm ut msg \<Rightarrow>
             (case uid of
                Some i \<Rightarrow>
                  ([(ToSocket s, ''auth_success'',
                      [(''userId'', Some i), (''userType'', Some ut),
                       (''message'', Some (''Authentication successful as '' @ ut))])],
                   upd_socket s (\<lambda>k. k\<lparr>userId := Some i, isAdmin := Some adm, userType := Some ut\<rparr>)
                     (st1\<lparr>userSockets := jsmap_set i s (userSockets st1)\<rparr>))
              | None \<Rightarrow> ([], st1)))"

text \<open>\<^verbatim>\<open>socket.on("reconnect", (attemptNumber) => ...)\<close>.\<close>

definition on_reconnect :: "nat \<Rightarrow> nat \<Rightarrow> server \<Rightarrow> payload emission list \<times> server" where
  "on_reconnect s attemptNumber st =
     (let k = sockets st ! s
      in case userId k of
           None \<Rightarrow> ([], st)
         | Some i \<Rightarrow>
             if i = [] then ([], st)
             else ([(ToSocket s, ''auth_success'',
                      [(''userId'', Some i), (''userType'', userType k),
                       (''message'',
                        Some (''Re-authentication successful as '' @ template (userType k)))])],
                   st\<lparr>userSockets := jsmap_set i s (userSockets st)\<rparr>))"

text \<open>\<^verbatim>\<open>socket.on("disconnect", (reason) => ...)\<close>: the entry of the socket's identity
  is deleted, without looking at the id stored there.\<close>

definition on_disconnect :: "nat \<Rightarrow> server \<Rightarrow> server" where
  "on_disconnect s st =
     (case userId (sockets st ! s) of
        None \<Rightarrow> st
      | Some i \<Rightarrow> if i = [] then st else st\<lparr>userSockets := jsmap_delete i (userSockets st)\<rparr>)"

text \<open>The connection closes (the client leaves, the transport fails, or the server
  calls \<^verbatim>\<open>socket.disconnect(true)\<close>): a socket that is already closed stays as it
  is, otherwise it is marked closed and its \<^verbatim>\<open>disconnect\<close> handler runs.\<close>

definition close_socket :: "nat \<Rightarrow> server \<Rightarrow> server" where
  "close_socket s st =
     (if connected (sockets st ! s)
      then on_disconnect s (upd_socket s (\<lambda>k. k\<lparr>connected := False\<rparr>) st)
      else st)"

text \<open>The callback given to \<^verbatim>\<open>setTimeout\<close>.\<close>

definition authTimeout_callback :: "nat \<Rightarrow> server \<Rightarrow> server" where
  "authTimeout_callback s st =
     (if \<not> truthy (userId (sockets st ! s)) then close_socket s st else st)"

text \<open>The timer of socket \<open>s\<close> runs if it is armed and due. Nothing cancels a timer
  when its socket closes, so it also runs for a closed socket.\<close>

definition run_timer :: "nat \<Rightarrow> server \<Rightarrow> server" where
  "run_timer s st =
     (case authTimeout (sockets st ! s) of
        Pending t \<Rightarrow>
          if t \<le> now st
          then authTimeout_callback s (upd_socket s (\<lambda>k. k\<lparr>authTimeout := Fired\<rparr>) st)
          else st
      | Cleared \<Rightarrow> st
      | Fired \<Rightarrow> st)"

text \<open>The timers of the sockets \<open>0, ..., n - 1\<close>, in the order the sockets were
  accepted (all timers have the same delay, so that is the order in which they are due).\<close>

fun run_timers :: "nat \<Rightarrow> server \<Rightarrow> server" where
  "run_timers 0 st = st"
| "run_timers (Suc n) st = run_timer n (run_timers n st)"

definition elapse :: "nat \<Rightarrow> server \<Rightarrow> server" where
  "elapse d st = (let st1 = st\<lparr>now := now st + d\<rparr> in run_timers (length (sockets st1)) st1)"

text \<open>
  What can happen to the server: a client connects, a connected client sends
  \<^verbatim>\<open>authenticate\<close> or \<^verbatim>\<open>reconnect\<close>, a connection closes, or time passes. A message
  from a socket that does not exist or is closed never arrives.
\<close>

datatype event =
    Connect
  | Authenticate nat "string option"
  | Reconnect nat nat
  | Disconnect nat
  | Elapse nat

definition live :: "nat \<Rightarrow> server \<Rightarrow> bool" where
  "live s st = (s < length (sockets st) \<and> connected (sockets st ! s))"

fun step :: "event \<Rightarrow> server \<Rightarrow> payload emission list \<times> server" where
  "step Connect st = ([], on_connection st)"
| "step (Authenticate s uid) st = (if live s st then on_authenticate s uid st else ([], st))"
| "step (Reconnect s n) st = (if live s st then on_reconnect s n st else ([], st))"
| "step (Disconnect s) st = ([], if live s st then close_socket s st else st)"
| "step (Elapse d) st = ([], elapse d st)"

fun exec :: "server \<Rightarrow> event list \<Rightarrow> server" where
  "exec st [] = st"
| "exec st (e # es) = exec (snd (step e st)) es"

text \<open>The time that passes in a list of events.\<close>

fun elapsed :: "event list \<Rightarrow> nat" where
  "elapsed [] = 0"
| "elapsed (Elapse d # es) = d + elapsed es"
| "elapsed (e # es) = elapsed es"

section \<open>Notifications sent by the HTTP routes\<close>

text \<open>
  The routes read \<^verbatim>\<open>userSockets\<close> and emit through \<^verbatim>\<open>io\<close>. Each handler is modelled
  from the point of view of the realtime subsystem: it takes the server state, the
  fields of the request it tests and the outcome of each external call it awaits (a
  database query, a file write, the mail transport). The payload objects are built from
  request and database fields and are parameters here.
\<close>

text \<open>A reply is its status code with the fixed message of its JSON body (or a word for
  a body that is built from data).\<close>

datatype http = Reply nat string

fun status :: "http \<Rightarrow> nat" where
  "status (Reply code msg) = code"

text \<open>The outcome of an external call the handler awaits.\<close>

datatype 'a io = Throws | Returns 'a

text \<open>
  What a handler has done when it returns: the HTTP reply, the emissions in the order
  they were made, the collections and directories it has written to (a document saved or
  updated, a file stored), in order, and the server state it leaves.
\<close>

record 'p outcome =
  reply :: http
  emitted :: "'p emission list"
  written :: "string list"
  state_after :: server

text \<open>The loop \<^verbatim>\<open>for (const [connectedUserId, socketId] of userSockets.entries())
  if (connectedUserId.startsWith('admin_')) { ... }\<close>.\<close>

definition for_admin_entries :: "(string, nat) jsmap \<Rightarrow> (string \<Rightarrow> nat \<Rightarrow> 'e list) \<Rightarrow> 'e list" where
  "for_admin_entries m body =
     concat (map (\<lambda>(connectedUserId, socketId).
                    if startsWith connectedUserId ''admin_'' then body connectedUserId socketId
                    else []) m)"

text \<open>The four places that notify all admins: \<^verbatim>\<open>/predict\<close> (lines 464-482),
  \<^verbatim>\<open>/analyze-damage\<close> (648-657), \<^verbatim>\<open>/save-canvas\<close> (801-812) and
  \<^verbatim>\<open>/api/review-image-v2\<close> (2282-2311). The last one also calls \<^verbatim>\<open>io.emit\<close> inside
  the loop, once for each admin entry, as a backup.\<close>

definition predict_admins :: "server \<Rightarrow> 'p \<Rightarrow> 'p \<Rightarrow> 'p emission list" where
  "predict_admins st p_entry p_admin =
     for_admin_entries (userSockets st)
       (\<lambda>connectedUserId socketId.
          [(ToSocket socketId, ''new-road-entry'', p_entry),
           (ToSocket socketId, ''admin-notification'', p_admin)])"

definition analyze_damage_admins :: "server \<Rightarrow> 'p \<Rightarrow> 'p emission list" where
  "analyze_damage_admins st p =
     for_admin_entries (userSockets st)
       (\<lambda>connectedUserId socketId. [(ToSocket socketId, ''analysis-complete'', p)])"

definition save_canvas_admins :: "server \<Rightarrow> 'p \<Rightarrow> 'p emission list" where
  "save_canvas_admins st p =
     for_admin_entries (userSockets st)
       (\<lambda>connectedUserId socketId. [(ToSocket socketId, ''prediction-complete'', p)])"

definition review_admins :: "server \<Rightarrow> (string \<Rightarrow> 'p) \<Rightarrow> (string \<Rightarrow> 'p) \<Rightarrow> 'p emission list" where
  "review_admins st p_admin p_admin_all =
     for_admin_entries (userSockets st)
       (\<lambda>connectedUserId socketId.
          [(ToSocket socketId, ''image-reviewed'', p_admin connectedUserId),
           (ToAll, ''admin-notification-broadcast'', p_admin_all connectedUserId)])"

text \<open>\<^verbatim>\<open>userSockets.get(x)\<close> for an \<open>x\<close> that may be \<^verbatim>\<open>undefined\<close>; the keys are strings.\<close>

fun get_opt :: "(string, nat) jsmap \<Rightarrow> string option \<Rightarrow> nat option" where
  "get_opt m None = None"
| "get_opt m (Some i) = jsmap_get i m"

text \<open>\<^verbatim>\<open>POST /api/user-notification\<close>, the part after the checks (lines 1004-1021): look
  the target up, emit \<^verbatim>\<open>type || 'notification'\<close> to it if it is there, and answer 200
  either way. The route writes nothing.\<close>

definition user_notification_send :: "server \<Rightarrow> string \<Rightarrow> string option \<Rightarrow> 'p \<Rightarrow> 'p outcome" where
  "user_notification_send st uid type p =
     (case jsmap_get uid (userSockets st) of
        Some userSocketId \<Rightarrow>
          \<lparr>reply = Reply 200 ''Notification sent successfully'',
           emitted = [(ToSocket userSocketId,
                       if truthy type then template type else ''notification'', p)],
           written = [], state_after = st\<rparr>
      | None \<Rightarrow>
          \<lparr>reply = Reply 200 ''User not connected, notification queued'',
           emitted = [], written = [], state_after = st\<rparr>)"

text \<open>The whole route; \<open>findOne\<close> is the outcome of the query on the login collection,
  made only for an id that is not an admin id and has the 24-hex-digit shape.\<close>

definition user_notification ::
  "server \<Rightarrow> string option \<Rightarrow> string option \<Rightarrow> 'p \<Rightarrow> unit option io \<Rightarrow> 'p outcome" where
  "user_notification st uid type p findOne =
     (case uid of
        None \<Rightarrow> \<lparr>reply = Reply 400 ''User ID is required'', emitted = [], written = [],
                 state_after = st\<rparr>
      | Some i \<Rightarrow>
          if i = []
          then \<lparr>reply = Reply 400 ''User ID is required'', emitted = [], written = [],
                state_after = st\<rparr>
          else if \<not> startsWith i ''admin_'' \<and> match_hex24 i
          then (case findOne of
                  Throws \<Rightarrow> \<lparr>reply = Reply 500 ''Error sending notification'', emitted = [],
                            written = [], state_after = st\<rparr>
                | Returns None \<Rightarrow> \<lparr>reply = Reply 404 ''User not found'', emitted = [],
                                  written = [], state_after = st\<rparr>
                | Returns (Some u) \<Rightarrow> user_notification_send st i type p)
          else user_notification_send st i type p)"

text \<open>A stored feedback document and a stored road entry: the field the routes use to
  find the target.\<close>

record feedback =
  feedback_userId :: "string option"

record roadEntry =
  entry_userId :: "string option"

text \<open>\<^verbatim>\<open>PATCH /api/feedbacks/:id\<close>. The feedback document is saved before the
  notification.\<close>

definition patch_feedback ::
  "server \<Rightarrow> feedback option io \<Rightarrow> unit io \<Rightarrow> 'p \<Rightarrow> 'p outcome" where
  "patch_feedback st findById save p =
     (case findById of
        Throws \<Rightarrow> \<lparr>reply = Reply 500 ''Error updating feedback'', emitted = [], written = [],
                  state_after = st\<rparr>
      | Returns None \<Rightarrow> \<lparr>reply = Reply 404 ''Feedback not found'', emitted = [], written = [],
                        state_after = st\<rparr>
      | Returns (Some fb) \<Rightarrow>
          (case save of
             Throws \<Rightarrow> \<lparr>reply = Reply 500 ''Error updating feedback'', emitted = [],
                       written = [], state_after = st\<rparr>
           | Returns u \<Rightarrow>
               \<lparr>reply = Reply 200 ''feedback'',
                emitted =
                  (if truthy (feedback_userId fb)
                   then (case get_opt (userSockets st) (feedback_userId fb) of
                           Some userSocketId \<Rightarrow> [(ToSocket userSocketId, ''feedback_status'', p)]
                         | None \<Rightarrow> [])
                   else []),
                written = [''Feedback''], state_after = st\<rparr>))"

text \<open>\<^verbatim>\<open>POST /api/feedbacks/:id/reply\<close>. \<open>mail\<close> is the outcome of building and sending
  the e-mail, \<open>uid\<close> the field \<^verbatim>\<open>userId\<close> of the request body.\<close>

definition reply_feedback ::
  "server \<Rightarrow> string option \<Rightarrow> feedback option io \<Rightarrow> unit io \<Rightarrow> unit io \<Rightarrow> 'p \<Rightarrow> 'p outcome" where
  "reply_feedback st uid findById mail save p =
     (case findById of
        Throws \<Rightarrow> \<lparr>reply = Reply 500 ''Error sending reply'', emitted = [], written = [],
                  state_after = st\<rparr>
      | Returns None \<Rightarrow> \<lparr>reply = Reply 404 ''Feedback not found'', emitted = [], written = [],
                        state_after = st\<rparr>
      | Returns (Some fb) \<Rightarrow>
          (case mail of
             Throws \<Rightarrow> \<lparr>reply = Reply 500 ''Error sending reply'', emitted = [], written = [],
                       state_after = st\<rparr>
           | Returns u \<Rightarrow>
               (case save of
                  Throws \<Rightarrow> \<lparr>reply = Reply 500 ''Error sending reply'', emitted = [],
                            written = [], state_after = st\<rparr>
                | Returns v \<Rightarrow>
                    \<lparr>reply = Reply 200 ''Reply sent successfully'',
                     emitted =
                       (if truthy uid \<and> truthy (feedback_userId fb)
                        then (case get_opt (userSockets st) (feedback_userId fb) of
                                Some userSocketId \<Rightarrow>
                                  [(ToSocket userSocketId, ''feedback_reply'', p)]
                              | None \<Rightarrow> [])
                        else []),
                     written = [''Feedback''], state_after = st\<rparr>)))"

text \<open>
  \<^verbatim>\<open>POST /predict\<close>, from the moment the prediction process has closed with exit
  code \<open>code\<close>. \<open>isRoad\<close> is the test \<^verbatim>\<open>result.toLowerCase() === "road"\<close>, \<open>write\<close> the
  outcome of writing the image into the uploads directory and \<open>save\<close> that of
  \<^verbatim>\<open>entry.save()\<close>.

  That call is awaited inside the \<^verbatim>\<open>async\<close> callback of the process, outside every
  \<^verbatim>\<open>try\<close>, and the file installs no handler for unhandled rejections: if it throws,
  Node ends the process, before any notification is sent. Nothing is left of the
  server then (no reply, no registry, no connection): the result is \<^term>\<open>None\<close>.
\<close>

definition predict_close ::
  "server \<Rightarrow> int \<Rightarrow> bool \<Rightarrow> unit io \<Rightarrow> string option \<Rightarrow> unit io \<Rightarrow> 'p \<Rightarrow> 'p \<Rightarrow> 'p \<Rightarrow>
   'p outcome option" where
  "predict_close st code isRoad write uid save p_entry p_admin p_user =
     (if code \<noteq> 0
      then Some \<lparr>reply = Reply 500 ''Prediction process failed'', emitted = [], written = [],
                 state_after = st\<rparr>
      else
        let to_user = (case get_opt (userSockets st) uid of
                         Some userSocketId \<Rightarrow> [(ToSocket userSocketId, ''prediction-complete'', p_user)]
                       | None \<Rightarrow> [])
        in if isRoad
           then (case write of
                   Throws \<Rightarrow> Some \<lparr>reply = Reply 500 ''Failed to save image'', emitted = [],
                                  written = [], state_after = st\<rparr>
                 | Returns u \<Rightarrow>
                     if \<not> truthy uid
                     then Some \<lparr>reply = Reply 400 ''User ID is required for image uploads'',
                                emitted = [], written = [''uploads''], state_after = st\<rparr>
                     else (case save of
                             Throws \<Rightarrow> None
                           | Returns v \<Rightarrow>
                               Some \<lparr>reply = Reply 200 ''prediction'',
                                     emitted = predict_admins st p_entry p_admin @ to_user,
                                     written = [''uploads'', ''RoadEntry''],
                                     state_after = st\<rparr>))
           else Some \<lparr>reply = Reply 200 ''prediction'', emitted = to_user, written = [],
                      state_after = st\<rparr>)"

text \<open>\<^verbatim>\<open>POST /save-canvas\<close>, which notifies the admins only. \<open>hasFields\<close> is
  \<^verbatim>\<open>imagePath && analysisResult\<close>; \<open>save\<close> is the outcome of building and saving the
  document. What this route stores is not modelled.\<close>

definition save_canvas ::
  "server \<Rightarrow> bool \<Rightarrow> string option \<Rightarrow> unit io \<Rightarrow> 'p \<Rightarrow> http \<times> 'p emission list \<times> server" where
  "save_canvas st hasFields uid save p =
     (if \<not> hasFields then (Reply 400 ''Missing imagePath or analysis result.'', [], st)
      else if \<not> truthy uid then (Reply 400 ''User ID is required.'', [], st)
      else (case save of
              Throws \<Rightarrow> (Reply 500 ''Failed to save to database.'', [], st)
            | Returns u \<Rightarrow>
                (Reply 200 ''Analysis saved successfully.'', save_canvas_admins st p, st)))"

text \<open>\<^verbatim>\<open>POST /analyze-damage\<close>: the callback given to \<^verbatim>\<open>setImmediate\<close> after the reply.\<close>

definition analyze_damage_notify :: "server \<Rightarrow> 'p \<Rightarrow> 'p emission list \<times> server" where
  "analyze_damage_notify st p = (analyze_damage_admins st p, st)"

text \<open>
  \<^verbatim>\<open>POST /api/review-image-v2\<close>. \<open>hasFields\<close> is \<^verbatim>\<open>imageId && reviewStatus\<close>; \<open>find1\<close>,
  \<open>update\<close> (the \<^verbatim>\<open>modifiedCount\<close> of \<^verbatim>\<open>updateOne\<close>) and \<open>find2\<close> are the outcomes of
  the three database calls. The payload for an admin carries the admin's id.
\<close>

definition review_image_v2 ::
  "server \<Rightarrow> bool \<Rightarrow> string option \<Rightarrow> roadEntry option io \<Rightarrow> nat io \<Rightarrow> roadEntry option io \<Rightarrow>
   'p \<Rightarrow> 'p \<Rightarrow> (string \<Rightarrow> 'p) \<Rightarrow> (string \<Rightarrow> 'p) \<Rightarrow> 'p outcome" where
  "review_image_v2 st hasFields reviewerId find1 update find2 p_user p_user_all p_admin p_admin_all =
     (if \<not> hasFields
      then \<lparr>reply = Reply 400 ''Image ID and review status are required'', emitted = [],
            written = [], state_after = st\<rparr>
      else if \<not> truthy reviewerId
      then \<lparr>reply = Reply 400 ''Reviewer ID is required'', emitted = [], written = [],
            state_after = st\<rparr>
      else
        (case find1 of
           Throws \<Rightarrow> \<lparr>reply = Reply 500 ''Server error during image review'', emitted = [],
                     written = [], state_after = st\<rparr>
         | Returns None \<Rightarrow> \<lparr>reply = Reply 404 ''Image entry not found'', emitted = [],
                           written = [], state_after = st\<rparr>
         | Returns (Some imageEntry) \<Rightarrow>
             (case update of
                Throws \<Rightarrow> \<lparr>reply = Reply 500 ''Error saving review'', emitted = [],
                          written = [], state_after = st\<rparr>
              | Returns modifiedCount \<Rightarrow>
                  if modifiedCount = 0
                  then \<lparr>reply = Reply 500 ''Failed to update the entry'', emitted = [],
                        written = [], state_after = st\<rparr>
                  else
                    (case find2 of
                       Throws \<Rightarrow> \<lparr>reply = Reply 500 ''Server error during image review'',
                                 emitted = [], written = [''RoadEntry''], state_after = st\<rparr>
                     | Returns None \<Rightarrow> \<lparr>reply = Reply 404 ''Updated image entry not found'',
                                       emitted = [], written = [''RoadEntry''],
                                       state_after = st\<rparr>
                     | Returns (Some updatedEntry) \<Rightarrow>
                         \<lparr>reply = Reply 200 ''Image review saved and notification sent'',
                          emitted =
                            (case get_opt (userSockets st) (entry_userId updatedEntry) of
                               Some targetSocketId \<Rightarrow>
                                 [(ToSocket targetSocketId, ''image-reviewed'', p_user),
                                  (ToAll, ''image-reviewed-broadcast'', p_user_all)]
                             | None \<Rightarrow> [])
                            @ review_admins st p_admin p_admin_all,
                          written = [''RoadEntry''], state_after = st\<rparr>))))"

section \<open>Notions used in the statements\<close>

text \<open>What running the due timers does to one socket at time \<open>t\<close>.\<close>

definition timer_effect :: "nat \<Rightarrow> socket \<Rightarrow> socket" where
  "timer_effect t k =
     (case authTimeout k of
        Pending d \<Rightarrow>
          if d \<le> t
          then (if truthy (userId k) then k\<lparr>authTimeout := Fired\<rparr>
                else k\<lparr>authTimeout := Fired, connected := False\<rparr>)
          else k
      | Cleared \<Rightarrow> k
      | Fired \<Rightarrow> k)"

text \<open>
  The states the handlers keep the server in: the registry has one entry per key; every
  entry names an accepted socket that holds an identity, under a key the classifier
  accepts; and a socket's identity is one the classifier accepts, with the role it gave.
\<close>

definition wf_server :: "server \<Rightarrow> bool" where
  "wf_server st \<longleftrightarrow>
     distinct (keys (userSockets st)) \<and>
     (\<forall>(i, s) \<in> set (userSockets st).
        s < length (sockets st) \<and> truthy (userId (sockets st ! s)) \<and>
        valid (validateUserType (Some i))) \<and>
     (\<forall>s < length (sockets st). \<forall>i. userId (sockets st ! s) = Some i \<longrightarrow>
        valid (validateUserType (Some i)) \<and>
        userType (sockets st ! s) = role (validateUserType (Some i)))"

text \<open>
  Socket \<open>s\<close> has not authenticated and its timer is due at \<open>T\<close>: either the timer is
  still armed and \<open>T\<close> lies ahead, or \<open>T\<close> has passed, the timer has run and the socket
  is closed.
\<close>

definition waiting :: "nat \<Rightarrow> nat \<Rightarrow> server \<Rightarrow> bool" where
  "waiting s T st \<longleftrightarrow>
     s < length (sockets st) \<and> userId (sockets st ! s) = None \<and>
     (authTimeout (sockets st ! s) = Pending T \<and> now st < T \<or>
      authTimeout (sockets st ! s) = Fired \<and> \<not> connected (sockets st ! s) \<and> T \<le> now st)"

text \<open>Socket \<open>s\<close> is open and its timer is no longer armed.\<close>

definition timer_off :: "nat \<Rightarrow> server \<Rightarrow> bool" where
  "timer_off s st \<longleftrightarrow> live s st \<and> (\<forall>t. authTimeout (sockets st ! s) \<noteq> Pending t)"

section \<open>Properties of the registry operations\<close>

lemma jsmap_get_set: "jsmap_get k' (jsmap_set k v m) = (if k' = k then Some v else jsmap_get k' m)"
  by (induction m) auto

lemma set_jsmap_set: "set (jsmap_set k v m) \<subseteq> insert (k, v) (set m)"
  by (induction m) (auto split: if_splits)

lemma keys_jsmap_set: "set (keys (jsmap_set k v m)) = insert k (set (keys m))"
  by (induction m) (force simp: keys_def image_iff split: if_splits)+

lemma distinct_jsmap_set: "distinct (keys m) \<Longrightarrow> distinct (keys (jsmap_set k v m))"
proof (induction m)
  case Nil
  show ?case by (simp add: keys_def)
next
  case (Cons p m)
  obtain k' v' where p: "p = (k', v')" by (cases p)
  have "k' \<noteq> k \<Longrightarrow> k' \<notin> set (keys (jsmap_set k v m))"
    using Cons.prems by (simp add: keys_jsmap_set p) (simp add: keys_def)
  with Cons show ?case
    by (auto simp: p keys_def)
qed

lemma set_jsmap_delete: "set (jsmap_delete k m) \<subseteq> set m"
  by (induction m) (auto split: if_splits)

lemma distinct_jsmap_delete: "distinct (keys m) \<Longrightarrow> distinct (keys (jsmap_delete k m))"
proof (induction m)
  case Nil
  show ?case by (simp add: keys_def)
next
  case (Cons p m)
  obtain k' v' where p: "p = (k', v')" by (cases p)
  have "fst ` set (jsmap_delete k m) \<subseteq> fst ` set m"
    using set_jsmap_delete [of k m] by blast
  with Cons show ?case
    by (auto simp: p keys_def)
qed

lemma jsmap_get_None: "jsmap_get k m = None \<longleftrightarrow> k \<notin> set (keys m)"
  by (induction m) (auto simp: keys_def split: if_splits)

lemma jsmap_get_Some: "distinct (keys m) \<Longrightarrow> jsmap_get k m = Some v \<longleftrightarrow> (k, v) \<in> set m"
  by (induction m) (auto simp: keys_def rev_image_eqI split: if_splits)

lemma jsmap_get_delete:
  "distinct (keys m) \<Longrightarrow> jsmap_get k' (jsmap_delete k m) = (if k' = k then None else jsmap_get k' m)"
proof (induction m)
  case Nil
  show ?case by simp
next
  case (Cons p m)
  obtain a b where p: "p = (a, b)" by (cases p)
  from Cons.prems have d: "distinct (keys m)" and a: "a \<notin> set (keys m)"
    by (simp_all add: keys_def p)
  show ?case
  proof (cases "a = k")
    case True
    with a show ?thesis by (simp add: p jsmap_get_None)
  next
    case False
    with Cons.IH [OF d] show ?thesis by (auto simp: p)
  qed
qed

section \<open>The effect of passing time\<close>

lemma on_disconnect_frame [simp]:
  "sockets (on_disconnect s st) = sockets st" "now (on_disconnect s st) = now st"
  by (simp_all add: on_disconnect_def split: option.split)

lemma close_socket_frame [simp]:
  "length (sockets (close_socket s st)) = length (sockets st)"
  "now (close_socket s st) = now st"
  "j \<noteq> s \<Longrightarrow> sockets (close_socket s st) ! j = sockets st ! j"
  by (simp_all add: close_socket_def upd_socket_def)

lemma run_timer_frame [simp]:
  "length (sockets (run_timer s st)) = length (sockets st)"
  "now (run_timer s st) = now st"
  "j \<noteq> s \<Longrightarrow> sockets (run_timer s st) ! j = sockets st ! j"
  by (simp_all add: run_timer_def authTimeout_callback_def upd_socket_def split: timer.split)

lemma run_timer_registry [simp]: "userSockets (run_timer s st) = userSockets st"
proof (cases "s < length (sockets st)")
  case True
  then show ?thesis
    by (auto simp: run_timer_def authTimeout_callback_def close_socket_def on_disconnect_def
        upd_socket_def split: timer.split option.split)
next
  case False
  then have "(sockets st)[s := k] = sockets st" for k
    by (simp add: not_less list_update_beyond)
  then show ?thesis
    by (auto simp: run_timer_def authTimeout_callback_def close_socket_def on_disconnect_def
        upd_socket_def split: timer.split option.split)
qed

lemma run_timer_self:
  "s < length (sockets st) \<Longrightarrow> sockets (run_timer s st) ! s = timer_effect (now st) (sockets st ! s)"
  by (auto simp: run_timer_def authTimeout_callback_def close_socket_def on_disconnect_def
      upd_socket_def timer_effect_def split: timer.split option.split)

lemma run_timers_frame [simp]:
  "length (sockets (run_timers n st)) = length (sockets st)"
  "now (run_timers n st) = now st"
  "userSockets (run_timers n st) = userSockets st"
  by (induction n) simp_all

lemma run_timers_socket:
  "s < length (sockets st) \<Longrightarrow>
   sockets (run_timers n st) ! s = (if s < n then timer_effect (now st) (sockets st ! s) else sockets st ! s)"
proof (induction n)
  case 0
  show ?case by simp
next
  case (Suc n)
  show ?case
  proof (cases "s = n")
    case True
    with Suc show ?thesis by (simp add: run_timer_self)
  next
    case False
    with Suc show ?thesis by (simp add: less_Suc_eq)
  qed
qed

lemma elapse_frame [simp]:
  "length (sockets (elapse d st)) = length (sockets st)"
  "now (elapse d st) = now st + d"
  "userSockets (elapse d st) = userSockets st"
  by (simp_all add: elapse_def Let_def)

lemma elapse_socket:
  "s < length (sockets st) \<Longrightarrow> sockets (elapse d st) ! s = timer_effect (now st + d) (sockets st ! s)"
  by (simp add: elapse_def Let_def run_timers_socket)

lemma timer_effect_ids [simp]:
  "userId (timer_effect t k) = userId k" "userType (timer_effect t k) = userType k"
  by (simp_all add: timer_effect_def split: timer.split)


section \<open>Every reachable state is well formed\<close>

lemma validateUserType_Valid:
  "validateUserType uid = Valid a t m \<Longrightarrow>
   \<exists>i. uid = Some i \<and> i \<noteq> [] \<and> a = startsWith i ''admin_'' \<and>
       t = (if a then ''admin'' else ''user'')"
  by (auto simp: validateUserType_def Let_def split: option.splits if_splits)

lemma valid_nonempty: "valid (validateUserType (Some i)) \<Longrightarrow> i \<noteq> []"
  by (auto simp: validateUserType_def)

lemma wf_init: "wf_server init_server"
  by (simp add: wf_server_def init_server_def keys_def)

lemma wf_on_connection: "wf_server st \<Longrightarrow> wf_server (on_connection st)"
  unfolding wf_server_def on_connection_def
  by (auto simp: nth_append less_Suc_eq)

lemma wf_elapse: "wf_server st \<Longrightarrow> wf_server (elapse d st)"
  unfolding wf_server_def
  by (auto simp: elapse_socket)

lemma close_socket_ids:
  "userId (sockets (close_socket s st) ! j) = userId (sockets st ! j)"
  "userType (sockets (close_socket s st) ! j) = userType (sockets st ! j)"
proof -
  have "userId (sockets (close_socket s st) ! j) = userId (sockets st ! j) \<and>
        userType (sockets (close_socket s st) ! j) = userType (sockets st ! j)"
  proof (cases "j = s \<and> s < length (sockets st)")
    case True
    then show ?thesis by (simp add: close_socket_def upd_socket_def)
  next
    case False
    then have "j \<noteq> s \<or> length (sockets st) \<le> s" by auto
    then show ?thesis
      by (auto simp: close_socket_def upd_socket_def list_update_beyond)
  qed
  then show "userId (sockets (close_socket s st) ! j) = userId (sockets st ! j)"
    and "userType (sockets (close_socket s st) ! j) = userType (sockets st ! j)"
    by simp_all
qed

lemma close_socket_registry:
  "userSockets (close_socket s st) =
     (if connected (sockets st ! s) \<and> truthy (userId (sockets st ! s))
      then jsmap_delete (the (userId (sockets st ! s))) (userSockets st)
      else userSockets st)"
proof (cases "s < length (sockets st)")
  case True
  then show ?thesis
    by (auto simp: close_socket_def on_disconnect_def upd_socket_def split: option.split)
next
  case False
  then have "(sockets st)[s := k] = sockets st" for k
    by (simp add: not_less list_update_beyond)
  then show ?thesis
    by (auto simp: close_socket_def on_disconnect_def upd_socket_def split: option.split)
qed

lemma wf_close_socket:
  assumes "wf_server st"
  shows "wf_server (close_socket s st)"
proof -
  have sub: "set (userSockets (close_socket s st)) \<subseteq> set (userSockets st)"
    using set_jsmap_delete [of _ "userSockets st"] by (auto simp: close_socket_registry)
  have dis: "distinct (keys (userSockets (close_socket s st)))"
    using assms by (auto simp: close_socket_registry wf_server_def distinct_jsmap_delete)
  from assms sub dis show ?thesis
    unfolding wf_server_def
    by (auto simp: close_socket_ids)
qed

lemma wf_on_reconnect:
  assumes "wf_server st" "s < length (sockets st)"
  shows "wf_server (snd (on_reconnect s n st))"
proof (cases "userId (sockets st ! s)")
  case None
  with assms show ?thesis by (simp add: on_reconnect_def)
next
  case (Some i)
  show ?thesis
  proof (cases "i = []")
    case True
    with Some assms show ?thesis by (simp add: on_reconnect_def)
  next
    case False
    have st': "snd (on_reconnect s n st) = st\<lparr>userSockets := jsmap_set i s (userSockets st)\<rparr>"
      using Some False by (simp add: on_reconnect_def Let_def)
    have v: "valid (validateUserType (Some i))"
      using assms Some by (auto simp: wf_server_def)
    have sub: "set (jsmap_set i s (userSockets st)) \<subseteq> insert (i, s) (set (userSockets st))"
      by (rule set_jsmap_set)
    from assms Some False v sub show ?thesis
      unfolding st' wf_server_def
      by (auto simp: distinct_jsmap_set)
  qed
qed

lemma wf_on_authenticate:
  assumes "wf_server st" "s < length (sockets st)"
  shows "wf_server (snd (on_authenticate s uid st))"
proof (cases "validateUserType uid")
  case (Invalid msg)
  then have st': "snd (on_authenticate s uid st) =
      upd_socket s (\<lambda>k. k\<lparr>authTimeout := clearTimeout (authTimeout k)\<rparr>) st"
    by (simp add: on_authenticate_def Let_def)
  from assms show ?thesis
    unfolding st' wf_server_def upd_socket_def
    by (auto simp: nth_list_update)
next
  case (Valid a t m)
  from validateUserType_Valid [OF this] obtain i where
    uid: "uid = Some i" and ne: "i \<noteq> []" by blast
  have v: "valid (validateUserType (Some i))" and r: "role (validateUserType (Some i)) = Some t"
    using Valid uid by simp_all
  have st': "snd (on_authenticate s uid st) =
      st\<lparr>userSockets := jsmap_set i s (userSockets st),
         sockets := (sockets st)[s := (sockets st ! s)
          \<lparr>authTimeout := clearTimeout (authTimeout (sockets st ! s)),
           userId := Some i, isAdmin := Some a, userType := Some t\<rparr>]\<rparr>"
    using Valid uid assms(2) by (simp add: on_authenticate_def upd_socket_def Let_def)
  have sub: "set (jsmap_set i s (userSockets st)) \<subseteq> insert (i, s) (set (userSockets st))"
    by (rule set_jsmap_set)
  from assms ne v r sub show ?thesis
    unfolding st' wf_server_def
    by (auto simp: distinct_jsmap_set nth_list_update)
qed

lemma wf_step: "wf_server st \<Longrightarrow> wf_server (snd (step e st))"
  by (cases e)
    (simp_all add: wf_on_connection wf_on_authenticate wf_on_reconnect wf_close_socket
      wf_elapse live_def)

lemma wf_exec: "wf_server st \<Longrightarrow> wf_server (exec st es)"
  by (induction es arbitrary: st) (simp_all add: wf_step)

lemma wf_reachable: "wf_server (exec init_server es)"
  by (rule wf_exec [OF wf_init])

section \<open>The classifier\<close>

lemma role_admin_iff:
  "role (validateUserType (Some i)) = Some ''admin'' \<longleftrightarrow> startsWith i ''admin_''"
  by (auto simp: validateUserType_def Let_def startsWith_def)

text \<open>
  Claim C3. For every identity string \<open>i\<close>, the classifier follows the format contract:
  an absent or empty identity is invalid; an identity that begins with the admin prefix
  \<^verbatim>\<open>admin_\<close> is valid with role admin; otherwise an identity that contains the separator
  \<^verbatim>\<open>_\<close> or consists of exactly 24 hexadecimal digits is valid with role user; every other
  identity is invalid. In particular \<^verbatim>\<open>admin_42\<close> is a valid admin,
  \<^verbatim>\<open>5f1a2b3c4d5e6f7a8b9c0d1e\<close> and \<^verbatim>\<open>user_bob\<close> are valid users, and \<^verbatim>\<open>bob\<close> is invalid.
\<close>

theorem classify_contract:
  "validateUserType None = Invalid ''No userId provided'' \<and>
   validateUserType (Some []) = Invalid ''No userId provided'' \<and>
   (startsWith i ''admin_'' \<longrightarrow>
      valid (validateUserType (Some i)) \<and> role (validateUserType (Some i)) = Some ''admin'') \<and>
   (\<not> startsWith i ''admin_'' \<and> (includes_char i CHR ''_'' \<or> match_hex24 i) \<longrightarrow>
      valid (validateUserType (Some i)) \<and> role (validateUserType (Some i)) = Some ''user'') \<and>
   (\<not> startsWith i ''admin_'' \<and> \<not> includes_char i CHR ''_'' \<and> \<not> match_hex24 i \<longrightarrow>
      \<not> valid (validateUserType (Some i))) \<and>
   validateUserType (Some ''admin_42'') = Valid True ''admin'' ''Valid admin user'' \<and>
   validateUserType (Some ''5f1a2b3c4d5e6f7a8b9c0d1e'') = Valid False ''user'' ''Valid regular user'' \<and>
   validateUserType (Some ''user_bob'') = Valid False ''user'' ''Valid regular user'' \<and>
   validateUserType (Some ''bob'') = Invalid ''Invalid userId format''"
proof -
  have empty: "validateUserType None = Invalid ''No userId provided''"
    "validateUserType (Some []) = Invalid ''No userId provided''"
    by (simp_all add: validateUserType_def)
  have admin: "startsWith i ''admin_'' \<longrightarrow>
      valid (validateUserType (Some i)) \<and> role (validateUserType (Some i)) = Some ''admin''"
    by (auto simp: validateUserType_def Let_def startsWith_def)
  have user: "\<not> startsWith i ''admin_'' \<and> (includes_char i CHR ''_'' \<or> match_hex24 i) \<longrightarrow>
      valid (validateUserType (Some i)) \<and> role (validateUserType (Some i)) = Some ''user''"
    by (auto simp: validateUserType_def Let_def includes_char_def match_hex24_def)
  have other: "\<not> startsWith i ''admin_'' \<and> \<not> includes_char i CHR ''_'' \<and> \<not> match_hex24 i \<longrightarrow>
      \<not> valid (validateUserType (Some i))"
    by (simp add: validateUserType_def Let_def)
  have ex1: "validateUserType (Some ''admin_42'') = Valid True ''admin'' ''Valid admin user''"
    by (simp add: validateUserType_def Let_def startsWith_def)
  have ex2: "validateUserType (Some ''5f1a2b3c4d5e6f7a8b9c0d1e'') = Valid False ''user'' ''Valid regular user''"
    by (simp add: validateUserType_def Let_def startsWith_def includes_char_def match_hex24_def hex_digit_def)
  have ex3: "validateUserType (Some ''user_bob'') = Valid False ''user'' ''Valid regular user''"
    by (simp add: validateUserType_def Let_def startsWith_def includes_char_def)
  have ex4: "validateUserType (Some ''bob'') = Invalid ''Invalid userId format''"
    by (simp add: validateUserType_def Let_def startsWith_def includes_char_def match_hex24_def)
  from empty admin user other ex1 ex2 ex3 ex4 show ?thesis by blast
qed

theorem classify_contract_witness:
  "startsWith ''admin_root'' ''admin_'' \<and>
   role (validateUserType (Some ''admin_root'')) = Some ''admin'' \<and>
   \<not> startsWith ''0123456789abcdefABCDEF01'' ''admin_'' \<and>
   match_hex24 ''0123456789abcdefABCDEF01'' \<and>
   role (validateUserType (Some ''0123456789abcdefABCDEF01'')) = Some ''user'' \<and>
   \<not> startsWith ''0123456789abcdefABCDEF0'' ''admin_'' \<and>
   \<not> includes_char ''0123456789abcdefABCDEF0'' CHR ''_'' \<and>
   \<not> match_hex24 ''0123456789abcdefABCDEF0'' \<and>
   \<not> valid (validateUserType (Some ''0123456789abcdefABCDEF0''))"
  using classify_contract [of "''admin_root''"]
    classify_contract [of "''0123456789abcdefABCDEF01''"]
    classify_contract [of "''0123456789abcdefABCDEF0''"]
  by (simp add: startsWith_def includes_char_def match_hex24_def hex_digit_def)

section \<open>The handlers, step by step\<close>

lemmas handler_defs =
  init_server_def on_connection_def on_authenticate_def on_reconnect_def on_disconnect_def
  close_socket_def authTimeout_callback_def run_timer_def elapse_def upd_socket_def live_def
  AUTH_TIMEOUT_def Let_def

lemmas classifier_defs =
  validateUserType_def startsWith_def includes_char_def match_hex24_def hex_digit_def

lemma authenticate_valid:
  assumes "live s st" "validateUserType (Some i) = Valid a t m"
  shows "step (Authenticate s (Some i)) st =
    ([(ToSocket s, ''auth_success'',
        [(''userId'', Some i), (''userType'', Some t),
         (''message'', Some (''Authentication successful as '' @ t))])],
     st\<lparr>userSockets := jsmap_set i s (userSockets st),
        sockets := (sockets st)[s := (sockets st ! s)
          \<lparr>authTimeout := clearTimeout (authTimeout (sockets st ! s)),
           userId := Some i, isAdmin := Some a, userType := Some t\<rparr>]\<rparr>)"
  using assms by (simp add: on_authenticate_def upd_socket_def Let_def live_def)

lemma authenticate_invalid:
  assumes "live s st" "validateUserType uid = Invalid msg"
  shows "step (Authenticate s uid) st =
    ([(ToSocket s, ''auth_error'', [(''message'', Some msg)])],
     st\<lparr>sockets := (sockets st)[s := (sockets st ! s)
          \<lparr>authTimeout := clearTimeout (authTimeout (sockets st ! s))\<rparr>]\<rparr>)"
  using assms by (simp add: on_authenticate_def upd_socket_def Let_def)

lemma valid_cases:
  assumes "valid (validateUserType (Some i))"
  obtains a t m where "validateUserType (Some i) = Valid a t m"
  using assms by (cases "validateUserType (Some i)") simp_all

lemma disconnect_registry:
  assumes "live s st"
  shows "userSockets (snd (step (Disconnect s) st)) =
    (case userId (sockets st ! s) of
       None \<Rightarrow> userSockets st
     | Some i \<Rightarrow> if i = [] then userSockets st else jsmap_delete i (userSockets st))"
  using assms by (simp add: close_socket_def on_disconnect_def upd_socket_def live_def split: option.split)

section \<open>Registration\<close>

text \<open>
  Claim C4. Registration is an upsert and the last write wins: setting the entry of
  identity \<open>i\<close> twice leaves the second handle; when two live connections \<open>s1\<close> and \<open>s2\<close>
  authenticate in that order with the same valid identity \<open>i\<close>, in any reachable
  state, the lookup of \<open>i\<close> gives \<open>s1\<close> and then \<open>s2\<close>, the registry still has one
  entry per identity and exactly one for \<open>i\<close>, and the earlier connection \<open>s1\<close> is not
  closed.
\<close>

theorem register_last_write_wins:
  assumes "st = exec init_server es" and "live s1 st" and "live s2 st"
    and "valid (validateUserType (Some i))"
    and "st1 = snd (step (Authenticate s1 (Some i)) st)"
    and "st2 = snd (step (Authenticate s2 (Some i)) st1)"
  shows "jsmap_get i (jsmap_set i h2 (jsmap_set i h1 m)) = Some h2 \<and>
         jsmap_get i (userSockets st1) = Some s1 \<and>
         jsmap_get i (userSockets st2) = Some s2 \<and>
         userSockets st2 = jsmap_set i s2 (jsmap_set i s1 (userSockets st)) \<and>
         distinct (keys (userSockets st2)) \<and>
         length (filter (\<lambda>e. fst e = i) (userSockets st2)) = 1 \<and>
         live s1 st2"
proof -
  from assms(4) obtain a t m where v: "validateUserType (Some i) = Valid a t m"
    by (rule valid_cases)
  have st1: "st1 = st\<lparr>userSockets := jsmap_set i s1 (userSockets st),
        sockets := (sockets st)[s1 := (sockets st ! s1)
          \<lparr>authTimeout := clearTimeout (authTimeout (sockets st ! s1)),
           userId := Some i, isAdmin := Some a, userType := Some t\<rparr>]\<rparr>"
    using authenticate_valid [OF assms(2) v] assms(5) by simp
  have l2: "live s2 st1" and l1: "live s1 st1"
    using assms(2,3) by (auto simp: st1 live_def nth_list_update)
  have st2: "st2 = st1\<lparr>userSockets := jsmap_set i s2 (userSockets st1),
        sockets := (sockets st1)[s2 := (sockets st1 ! s2)
          \<lparr>authTimeout := clearTimeout (authTimeout (sockets st1 ! s2)),
           userId := Some i, isAdmin := Some a, userType := Some t\<rparr>]\<rparr>"
    using authenticate_valid [OF l2 v] assms(6) by simp
  have "wf_server st2"
    unfolding assms(6) assms(5) assms(1) by (intro wf_step wf_reachable)
  then have d: "distinct (keys (userSockets st2))"
    by (simp add: wf_server_def)
  have g: "jsmap_get i (userSockets st2) = Some s2"
    by (simp add: st2 jsmap_get_set)
  have one: "length (filter (\<lambda>e. fst e = i) m') = 1"
    if "distinct (keys m')" "jsmap_get i m' = Some v" for m' :: "(string, nat) jsmap" and v
    using that
  proof (induction m')
    case Nil
    then show ?case by simp
  next
    case (Cons p m')
    obtain k w where p: "p = (k, w)" by (cases p)
    show ?case
    proof (cases "k = i")
      case True
      with Cons.prems have "i \<notin> fst ` set m'" by (simp add: p keys_def)
      then have "filter (\<lambda>e. fst e = i) m' = []"
        by (auto simp: filter_empty_conv)
      with True show ?thesis by (simp add: p)
    next
      case False
      with Cons show ?thesis by (simp add: p keys_def)
    qed
  qed
  have "live s1 st2"
    using l1 l2 by (auto simp: st2 live_def nth_list_update)
  with d g one [OF d g] show ?thesis
    by (simp add: jsmap_get_set st1 st2)
qed

theorem register_last_write_wins_witness:
  "live 0 (exec init_server [Connect, Connect]) \<and>
   live 1 (exec init_server [Connect, Connect]) \<and>
   valid (validateUserType (Some ''user_alice'')) \<and>
   jsmap_get ''user_alice''
     (userSockets (exec init_server
        [Connect, Connect, Authenticate 0 (Some ''user_alice''),
         Authenticate 1 (Some ''user_alice'')])) = Some 1 \<and>
   live 0 (exec init_server
        [Connect, Connect, Authenticate 0 (Some ''user_alice''),
         Authenticate 1 (Some ''user_alice'')])"
proof -
  have l: "live 0 (exec init_server [Connect, Connect])" "live 1 (exec init_server [Connect, Connect])"
    by (simp_all add: handler_defs)
  have v: "valid (validateUserType (Some ''user_alice''))"
    by (simp add: classifier_defs)
  have e: "exec init_server
        [Connect, Connect, Authenticate 0 (Some ''user_alice''),
         Authenticate 1 (Some ''user_alice'')] =
      snd (step (Authenticate 1 (Some ''user_alice''))
        (snd (step (Authenticate 0 (Some ''user_alice'')) (exec init_server [Connect, Connect]))))"
    by simp
  from register_last_write_wins [OF refl l v refl refl, of 0 0 "[]"] l v
  show ?thesis unfolding e by blast
qed

section \<open>Disconnection\<close>

text \<open>
  Claim C1 as it was stated does not hold.
  Two connections authenticate as \<^verbatim>\<open>user_alice\<close>, first connection 0 and then
  connection 1, so the registry holds connection 1. When connection 0 closes, the entry
  is gone, although the handle on file was not the one that closed.
\<close>

theorem stale_disconnect_counterexample:
  "jsmap_get ''user_alice''
     (userSockets (exec init_server
        [Connect, Connect, Authenticate 0 (Some ''user_alice''),
         Authenticate 1 (Some ''user_alice'')])) = Some 1 \<and>
   jsmap_get ''user_alice''
     (userSockets (exec init_server
        [Connect, Connect, Authenticate 0 (Some ''user_alice''),
         Authenticate 1 (Some ''user_alice''), Disconnect 0])) = None"
  by (simp add: handler_defs classifier_defs)

text \<open>
  Claim C1, as the code has it. When a live connection that holds identity \<open>i\<close> closes,
  in any reachable state, the registry entry of \<open>i\<close> is removed whatever handle is
  stored there (the handler does not compare the stored handle with the closing one),
  and the entries of all other identities are as before.
\<close>

theorem disconnect_removes_entry:
  assumes "st = exec init_server es" and "live s st" and "userId (sockets st ! s) = Some i"
  shows "jsmap_get i (userSockets (snd (step (Disconnect s) st))) = None \<and>
         (\<forall>j. j \<noteq> i \<longrightarrow>
            jsmap_get j (userSockets (snd (step (Disconnect s) st))) = jsmap_get j (userSockets st))"
proof -
  have wf: "wf_server st"
    unfolding assms(1) by (rule wf_reachable)
  then have d: "distinct (keys (userSockets st))"
    by (simp add: wf_server_def)
  from wf assms(2,3) have "valid (validateUserType (Some i))"
    by (auto simp: wf_server_def live_def)
  then have ne: "i \<noteq> []"
    by (rule valid_nonempty)
  have "userSockets (snd (step (Disconnect s) st)) = jsmap_delete i (userSockets st)"
    using disconnect_registry [OF assms(2)] assms(3) ne by simp
  then show ?thesis
    by (simp add: jsmap_get_delete [OF d])
qed

theorem disconnect_removes_entry_witness:
  "live 0 (exec init_server
     [Connect, Connect, Authenticate 0 (Some ''user_alice''), Authenticate 1 (Some ''user_alice'')]) \<and>
   userId (sockets (exec init_server
     [Connect, Connect, Authenticate 0 (Some ''user_alice''), Authenticate 1 (Some ''user_alice'')]) ! 0)
     = Some ''user_alice'' \<and>
   jsmap_get ''user_alice'' (userSockets (exec init_server
     [Connect, Connect, Authenticate 0 (Some ''user_alice''), Authenticate 1 (Some ''user_alice'')]))
     = Some 1 \<and>
   jsmap_get ''user_alice'' (userSockets (snd (step (Disconnect 0) (exec init_server
     [Connect, Connect, Authenticate 0 (Some ''user_alice''), Authenticate 1 (Some ''user_alice'')]))))
     = None \<and>
   ''admin_42'' \<noteq> ''user_alice'' \<and>
   jsmap_get ''admin_42'' (userSockets (snd (step (Disconnect 0) (exec init_server
     [Connect, Connect, Authenticate 0 (Some ''user_alice''), Authenticate 1 (Some ''user_alice'')]))))
     = jsmap_get ''admin_42'' (userSockets (exec init_server
     [Connect, Connect, Authenticate 0 (Some ''user_alice''), Authenticate 1 (Some ''user_alice'')]))"
proof -
  let ?st = "exec init_server
     [Connect, Connect, Authenticate 0 (Some ''user_alice''), Authenticate 1 (Some ''user_alice'')]"
  have l: "live 0 ?st"
    by (simp add: handler_defs classifier_defs)
  have u: "userId (sockets ?st ! 0) = Some ''user_alice''"
    by (simp add: handler_defs classifier_defs)
  have g: "jsmap_get ''user_alice'' (userSockets ?st) = Some 1"
    by (simp add: handler_defs classifier_defs)
  have n: "''admin_42'' \<noteq> ''user_alice''"
    by simp
  note T = disconnect_removes_entry [OF refl l u]
  have c1: "jsmap_get ''user_alice'' (userSockets (snd (step (Disconnect 0) ?st))) = None"
    using T by (rule conjunct1)
  have c2: "jsmap_get ''admin_42'' (userSockets (snd (step (Disconnect 0) ?st))) =
      jsmap_get ''admin_42'' (userSockets ?st)"
    using T [THEN conjunct2, THEN spec, of "''admin_42''", THEN mp, OF n] .
  from l u g c1 n c2 show ?thesis
    by (intro conjI)
qed

section \<open>Reconnection\<close>

text \<open>
  Claim C9 as it was stated does not hold.
  The identity of a session is kept on the socket object only. A client authenticates
  as \<^verbatim>\<open>user_alice\<close>, its transport drops and comes back: the server sees the old
  socket close and a new connection open. The new socket holds no identity, so a
  \<^verbatim>\<open>reconnect\<close> on it emits nothing and the registry has no entry for the identity.
\<close>

theorem transport_reconnect_counterexample:
  "jsmap_get ''user_alice'' (userSockets (exec init_server
      [Connect, Authenticate 0 (Some ''user_alice'')])) = Some 0 \<and>
   live 1 (exec init_server
      [Connect, Authenticate 0 (Some ''user_alice''), Disconnect 0, Connect]) \<and>
   fst (step (Reconnect 1 1) (exec init_server
      [Connect, Authenticate 0 (Some ''user_alice''), Disconnect 0, Connect])) = [] \<and>
   jsmap_get ''user_alice'' (userSockets (exec init_server
      [Connect, Authenticate 0 (Some ''user_alice''), Disconnect 0, Connect, Reconnect 1 1])) = None"
  by (simp add: handler_defs classifier_defs)

text \<open>
  Claim C9, as the code has it. When a live connection \<open>s\<close> receives \<^verbatim>\<open>reconnect\<close>, in
  any reachable state: if \<open>s\<close> holds identity \<open>i\<close> from an earlier authentication on this
  same socket, the registry entry of \<open>i\<close> is set to \<open>s\<close> and \<^verbatim>\<open>auth_success\<close> is emitted
  to \<open>s\<close> again with the identity and the role the classifier gives it, no
  \<^verbatim>\<open>authenticate\<close> call being needed and nothing else changing; if \<open>s\<close> holds no
  identity, nothing is emitted and nothing changes. A connection that has just been
  accepted holds no identity, so that is what happens on the socket a client gets when
  its transport reconnects.
\<close>

theorem reconnect_reregisters:
  assumes "st = exec init_server es" and "live s st"
  shows "(userId (sockets st ! s) = Some i \<longrightarrow>
           step (Reconnect s n) st =
             ([(ToSocket s, ''auth_success'',
                 [(''userId'', Some i), (''userType'', role (validateUserType (Some i))),
                  (''message'',
                   Some (''Re-authentication successful as '' @
                         template (role (validateUserType (Some i)))))])],
              st\<lparr>userSockets := jsmap_set i s (userSockets st)\<rparr>) \<and>
           jsmap_get i (userSockets (snd (step (Reconnect s n) st))) = Some s \<and>
           valid (validateUserType (Some i))) \<and>
         (userId (sockets st ! s) = None \<longrightarrow> step (Reconnect s n) st = ([], st)) \<and>
         userId (sockets (snd (step Connect st)) ! length (sockets st)) = None \<and>
         step (Reconnect (length (sockets st)) n) (snd (step Connect st)) =
           ([], snd (step Connect st))"
proof -
  have wf: "wf_server st"
    unfolding assms(1) by (rule wf_reachable)
  have some: "step (Reconnect s n) st =
             ([(ToSocket s, ''auth_success'',
                 [(''userId'', Some i), (''userType'', role (validateUserType (Some i))),
                  (''message'',
                   Some (''Re-authentication successful as '' @
                         template (role (validateUserType (Some i)))))])],
              st\<lparr>userSockets := jsmap_set i s (userSockets st)\<rparr>) \<and>
           jsmap_get i (userSockets (snd (step (Reconnect s n) st))) = Some s \<and>
           valid (validateUserType (Some i))"
    if u: "userId (sockets st ! s) = Some i"
  proof -
    from wf assms(2) u have v: "valid (validateUserType (Some i))"
      and t: "userType (sockets st ! s) = role (validateUserType (Some i))"
      by (auto simp: wf_server_def live_def)
    from v have ne: "i \<noteq> []"
      by (rule valid_nonempty)
    have "step (Reconnect s n) st =
             ([(ToSocket s, ''auth_success'',
                 [(''userId'', Some i), (''userType'', role (validateUserType (Some i))),
                  (''message'',
                   Some (''Re-authentication successful as '' @
                         template (role (validateUserType (Some i)))))])],
              st\<lparr>userSockets := jsmap_set i s (userSockets st)\<rparr>)"
      using assms(2) u ne t by (simp add: on_reconnect_def Let_def)
    with v show ?thesis
      by (simp add: jsmap_get_set)
  qed
  have none: "step (Reconnect s n) st = ([], st)" if "userId (sockets st ! s) = None"
    using that by (simp add: on_reconnect_def Let_def)
  have fresh: "userId (sockets (snd (step Connect st)) ! length (sockets st)) = None"
    by (simp add: on_connection_def)
  have again: "step (Reconnect (length (sockets st)) n) (snd (step Connect st)) =
           ([], snd (step Connect st))"
    by (simp add: on_connection_def on_reconnect_def live_def Let_def)
  from some none fresh again show ?thesis
    by blast
qed

theorem reconnect_reregisters_witness:
  "live 0 (exec init_server [Connect, Authenticate 0 (Some ''admin_42''), Connect,
       Authenticate 1 (Some ''admin_42''), Connect]) \<and>
   userId (sockets (exec init_server [Connect, Authenticate 0 (Some ''admin_42''), Connect,
       Authenticate 1 (Some ''admin_42''), Connect]) ! 0) = Some ''admin_42'' \<and>
   jsmap_get ''admin_42'' (userSockets (exec init_server [Connect,
       Authenticate 0 (Some ''admin_42''), Connect, Authenticate 1 (Some ''admin_42''), Connect]))
     = Some 1 \<and>
   fst (step (Reconnect 0 3) (exec init_server [Connect, Authenticate 0 (Some ''admin_42''), Connect,
       Authenticate 1 (Some ''admin_42''), Connect])) =
     [(ToSocket 0, ''auth_success'',
        [(''userId'', Some ''admin_42''), (''userType'', Some ''admin''),
         (''message'', Some ''Re-authentication successful as admin'')])] \<and>
   jsmap_get ''admin_42'' (userSockets (snd (step (Reconnect 0 3) (exec init_server [Connect,
       Authenticate 0 (Some ''admin_42''), Connect, Authenticate 1 (Some ''admin_42''), Connect]))))
     = Some 0 \<and>
   live 2 (exec init_server [Connect, Authenticate 0 (Some ''admin_42''), Connect,
       Authenticate 1 (Some ''admin_42''), Connect]) \<and>
   userId (sockets (exec init_server [Connect, Authenticate 0 (Some ''admin_42''), Connect,
       Authenticate 1 (Some ''admin_42''), Connect]) ! 2) = None \<and>
   step (Reconnect 2 1) (exec init_server [Connect, Authenticate 0 (Some ''admin_42''), Connect,
       Authenticate 1 (Some ''admin_42''), Connect]) =
     ([], exec init_server [Connect, Authenticate 0 (Some ''admin_42''), Connect,
       Authenticate 1 (Some ''admin_42''), Connect])"
proof -
  let ?st = "exec init_server [Connect, Authenticate 0 (Some ''admin_42''), Connect,
       Authenticate 1 (Some ''admin_42''), Connect]"
  have l: "live 0 ?st" and l2: "live 2 ?st"
    by (simp_all add: handler_defs classifier_defs)
  have u: "userId (sockets ?st ! 0) = Some ''admin_42''"
    and u2: "userId (sockets ?st ! 2) = None"
    by (simp_all add: handler_defs classifier_defs)
  have g: "jsmap_get ''admin_42'' (userSockets ?st) = Some 1"
    by (simp add: handler_defs classifier_defs)
  have e: "fst (step (Reconnect 0 3) ?st) =
     [(ToSocket 0, ''auth_success'',
        [(''userId'', Some ''admin_42''), (''userType'', Some ''admin''),
         (''message'', Some ''Re-authentication successful as admin'')])]"
    by (simp add: handler_defs classifier_defs)
  note T = reconnect_reregisters [OF refl l, of "''admin_42''" 3]
  note T2 = reconnect_reregisters [OF refl l2, of "''admin_42''" 1]
  have c: "jsmap_get ''admin_42'' (userSockets (snd (step (Reconnect 0 3) ?st))) = Some 0"
    using T [THEN conjunct1, THEN mp, OF u, THEN conjunct2, THEN conjunct1] .
  have c2: "step (Reconnect 2 1) ?st = ([], ?st)"
    using T2 [THEN conjunct2, THEN conjunct1, THEN mp, OF u2] .
  from l u g e c l2 u2 c2 show ?thesis
    by (intro conjI)
qed

section \<open>The keys of the registry\<close>

text \<open>
  Claim C10. In every reachable state each key of the registry is an identity the
  classifier accepts. The handlers keep it so: an \<^verbatim>\<open>authenticate\<close> with an identity the
  classifier rejects leaves the registry as it is, a \<^verbatim>\<open>reconnect\<close> on a connection
  without identity leaves it as it is, and a disconnection only removes entries.
\<close>

theorem registry_keys_valid:
  "(\<forall>i \<in> set (keys (userSockets (exec init_server es))). valid (validateUserType (Some i))) \<and>
   (\<not> valid (validateUserType uid) \<longrightarrow>
      userSockets (snd (step (Authenticate s uid) (exec init_server es))) =
      userSockets (exec init_server es)) \<and>
   (userId (sockets (exec init_server es) ! s) = None \<longrightarrow>
      userSockets (snd (step (Reconnect s n) (exec init_server es))) =
      userSockets (exec init_server es)) \<and>
   set (userSockets (snd (step (Disconnect s) (exec init_server es))))
     \<subseteq> set (userSockets (exec init_server es))"
proof -
  let ?st = "exec init_server es"
  have "wf_server ?st"
    by (rule wf_reachable)
  then have a: "\<forall>i \<in> set (keys (userSockets ?st)). valid (validateUserType (Some i))"
    by (auto simp: wf_server_def keys_def)
  have b: "userSockets (snd (step (Authenticate s uid) ?st)) = userSockets ?st"
    if "\<not> valid (validateUserType uid)"
  proof (cases "validateUserType uid")
    case (Invalid msg)
    then show ?thesis
      by (simp add: on_authenticate_def upd_socket_def Let_def)
  next
    case (Valid a t m)
    with that show ?thesis by simp
  qed
  have c: "userSockets (snd (step (Reconnect s n) ?st)) = userSockets ?st"
    if "userId (sockets ?st ! s) = None"
    using that by (simp add: on_reconnect_def Let_def)
  have d: "set (userSockets (snd (step (Disconnect s) ?st))) \<subseteq> set (userSockets ?st)"
    using set_jsmap_delete [of _ "userSockets ?st"]
    by (auto simp: close_socket_registry)
  from a b c d show ?thesis by blast
qed

theorem registry_keys_valid_witness:
  "keys (userSockets (exec init_server
      [Connect, Authenticate 0 (Some ''admin_42''), Connect, Authenticate 1 (Some ''bob'')]))
     = [''admin_42''] \<and>
   valid (validateUserType (Some ''admin_42'')) \<and>
   \<not> valid (validateUserType (Some ''bob'')) \<and>
   userSockets (snd (step (Authenticate 1 (Some ''bob'')) (exec init_server
      [Connect, Authenticate 0 (Some ''admin_42''), Connect]))) =
   userSockets (exec init_server [Connect, Authenticate 0 (Some ''admin_42''), Connect]) \<and>
   userId (sockets (exec init_server [Connect, Authenticate 0 (Some ''admin_42''), Connect]) ! 1)
     = None \<and>
   userSockets (snd (step (Reconnect 1 2) (exec init_server
      [Connect, Authenticate 0 (Some ''admin_42''), Connect]))) =
   userSockets (exec init_server [Connect, Authenticate 0 (Some ''admin_42''), Connect])"
proof -
  have k: "keys (userSockets (exec init_server
      [Connect, Authenticate 0 (Some ''admin_42''), Connect, Authenticate 1 (Some ''bob'')]))
     = [''admin_42'']"
    by (simp add: handler_defs classifier_defs keys_def)
  have nv: "\<not> valid (validateUserType (Some ''bob''))"
    by (simp add: classifier_defs)
  have u: "userId (sockets (exec init_server [Connect, Authenticate 0 (Some ''admin_42''), Connect]) ! 1)
     = None"
    by (simp add: handler_defs classifier_defs)
  have m: "''admin_42'' \<in> set (keys (userSockets (exec init_server
      [Connect, Authenticate 0 (Some ''admin_42''), Connect, Authenticate 1 (Some ''bob'')])))"
    unfolding k by simp
  note T1 = registry_keys_valid [of "[Connect, Authenticate 0 (Some ''admin_42''), Connect,
      Authenticate 1 (Some ''bob'')]" "Some ''bob''" 1 2]
  note T2 = registry_keys_valid [of "[Connect, Authenticate 0 (Some ''admin_42''), Connect]"
      "Some ''bob''" 1 2]
  have v: "valid (validateUserType (Some ''admin_42''))"
    using T1 [THEN conjunct1, THEN bspec, OF m] .
  have a: "userSockets (snd (step (Authenticate 1 (Some ''bob'')) (exec init_server
      [Connect, Authenticate 0 (Some ''admin_42''), Connect]))) =
      userSockets (exec init_server [Connect, Authenticate 0 (Some ''admin_42''), Connect])"
    using T2 [THEN conjunct2, THEN conjunct1, THEN mp, OF nv] .
  have r: "userSockets (snd (step (Reconnect 1 2) (exec init_server
      [Connect, Authenticate 0 (Some ''admin_42''), Connect]))) =
      userSockets (exec init_server [Connect, Authenticate 0 (Some ''admin_42''), Connect])"
    using T2 [THEN conjunct2, THEN conjunct2, THEN conjunct1, THEN mp, OF u] .
  from k v nv a u r show ?thesis
    by (intro conjI)
qed

section \<open>Traces\<close>

lemma exec_append: "exec st (es1 @ es2) = exec (exec st es1) es2"
  by (induction es1 arbitrary: st) simp_all

lemma on_authenticate_frame:
  "length (sockets (snd (on_authenticate s uid st))) = length (sockets st)"
  "now (snd (on_authenticate s uid st)) = now st"
  "j \<noteq> s \<Longrightarrow> sockets (snd (on_authenticate s uid st)) ! j = sockets st ! j"
  by (simp_all add: on_authenticate_def upd_socket_def Let_def split: validation.split option.split)

lemma on_reconnect_frame:
  "sockets (snd (on_reconnect s n st)) = sockets st"
  "now (snd (on_reconnect s n st)) = now st"
  by (simp_all add: on_reconnect_def Let_def split: option.split)

lemma close_socket_self:
  "s < length (sockets st) \<Longrightarrow>
   sockets (close_socket s st) ! s = (sockets st ! s)\<lparr>connected := False\<rparr>"
  by (cases "connected (sockets st ! s)") (simp_all add: close_socket_def upd_socket_def)

lemma now_step: "now (snd (step e st)) = now st + elapsed [e]"
  by (cases e) (simp_all add: on_connection_def on_authenticate_frame on_reconnect_frame)

lemma now_exec: "now (exec st es) = now st + elapsed es"
proof (induction es arbitrary: st)
  case Nil
  show ?case by simp
next
  case (Cons e es)
  have "elapsed (e # es) = elapsed [e] + elapsed es"
    by (cases e) simp_all
  with Cons show ?case by (simp add: now_step)
qed

lemma waiting_step:
  assumes "waiting s T st" and "\<forall>u. e \<noteq> Authenticate s u"
  shows "waiting s T (snd (step e st))"
proof (cases e)
  case Connect
  with assms show ?thesis
    by (auto simp: waiting_def on_connection_def nth_append)
next
  case (Authenticate s' u)
  with assms have "s' \<noteq> s" by auto
  with assms Authenticate show ?thesis
    by (auto simp: waiting_def on_authenticate_frame)
next
  case (Reconnect s' n)
  with assms show ?thesis
    by (auto simp: waiting_def on_reconnect_frame)
next
  case (Disconnect s')
  show ?thesis
  proof (cases "s' = s")
    case True
    with assms Disconnect show ?thesis
      by (auto simp: waiting_def close_socket_self)
  next
    case False
    with assms Disconnect show ?thesis
      by (auto simp: waiting_def)
  qed
next
  case (Elapse d)
  with assms show ?thesis
    by (auto simp: waiting_def elapse_socket timer_effect_def split: if_splits)
qed

lemma waiting_exec:
  assumes "waiting s T st" and "\<forall>u. Authenticate s u \<notin> set es"
  shows "waiting s T (exec st es)"
  using assms
proof (induction es arbitrary: st)
  case Nil
  then show ?case by simp
next
  case (Cons e es)
  from Cons.prems have "\<forall>u. e \<noteq> Authenticate s u" by auto
  with Cons.prems have "waiting s T (snd (step e st))"
    by (intro waiting_step) simp_all
  with Cons show ?case by simp
qed

text \<open>Before the deadline only the client's own leaving closes the socket.\<close>

lemma open_step:
  assumes "waiting s T st" and "connected (sockets st ! s)"
    and "\<forall>u. e \<noteq> Authenticate s u" and "e \<noteq> Disconnect s"
    and "now (snd (step e st)) < T"
  shows "connected (sockets (snd (step e st)) ! s)"
proof (cases e)
  case Connect
  with assms show ?thesis
    by (auto simp: waiting_def on_connection_def nth_append)
next
  case (Authenticate s' u)
  with assms have "s' \<noteq> s" by auto
  with assms Authenticate show ?thesis
    by (auto simp: waiting_def on_authenticate_frame)
next
  case (Reconnect s' n)
  with assms show ?thesis
    by (auto simp: waiting_def on_reconnect_frame)
next
  case (Disconnect s')
  with assms have "s' \<noteq> s" by auto
  with assms Disconnect show ?thesis
    by (auto simp: waiting_def)
next
  case (Elapse d)
  with assms show ?thesis
    by (auto simp: waiting_def elapse_socket timer_effect_def split: if_splits)
qed

lemma open_exec:
  assumes "waiting s T st" and "connected (sockets st ! s)"
    and "\<forall>u. Authenticate s u \<notin> set es" and "Disconnect s \<notin> set es"
    and "now (exec st es) < T"
  shows "connected (sockets (exec st es) ! s)"
  using assms
proof (induction es arbitrary: st)
  case Nil
  then show ?case by simp
next
  case (Cons e es)
  let ?st = "snd (step e st)"
  from Cons.prems have e: "\<forall>u. e \<noteq> Authenticate s u" "e \<noteq> Disconnect s" by auto
  have w: "waiting s T ?st"
    using Cons.prems(1) e(1) by (rule waiting_step)
  have "now ?st \<le> now (exec ?st es)"
    by (simp add: now_exec)
  with Cons.prems(5) have "now ?st < T" by simp
  with Cons.prems e have c: "connected (sockets ?st ! s)"
    by (intro open_step) simp_all
  from Cons.IH [OF w c] Cons.prems show ?case by simp
qed

section \<open>A connection that never authenticates\<close>

text \<open>
  Claim C5. Let \<open>s\<close> be the connection accepted by a \<^verbatim>\<open>Connect\<close> event, after any
  events \<open>es1\<close>, and let \<open>es2\<close> be any later events among which \<open>s\<close> never sends
  \<^verbatim>\<open>authenticate\<close>. Then at that point \<open>s\<close> is not a value of any registry entry and
  holds no identity; once 30000 ms have passed since it connected, its timer has run and
  it is closed; and before that it is open unless it disconnected itself. Every prefix of
  \<open>es2\<close> is such a list, so this holds at every point of the connection's lifetime.
\<close>

theorem never_authenticated:
  assumes "s = length (sockets (exec init_server es1))"
    and "\<forall>u. Authenticate s u \<notin> set es2"
    and "st = exec init_server (es1 @ Connect # es2)"
  shows "s \<notin> snd ` set (userSockets st) \<and>
         userId (sockets st ! s) = None \<and>
         (AUTH_TIMEOUT \<le> elapsed es2 \<longrightarrow>
            \<not> connected (sockets st ! s) \<and> authTimeout (sockets st ! s) = Fired) \<and>
         (elapsed es2 < AUTH_TIMEOUT \<and> Disconnect s \<notin> set es2 \<longrightarrow>
            connected (sockets st ! s))"
proof -
  let ?st0 = "exec init_server es1"
  let ?st1 = "on_connection ?st0"
  let ?T = "now ?st0 + AUTH_TIMEOUT"
  have st: "st = exec ?st1 es2"
    by (simp add: assms(3) exec_append)
  have w1: "waiting s ?T ?st1" and c1: "connected (sockets ?st1 ! s)"
    by (simp_all add: waiting_def on_connection_def assms(1) AUTH_TIMEOUT_def)
  have w: "waiting s ?T st"
    unfolding st using w1 assms(2) by (rule waiting_exec)
  have n: "now st = now ?st0 + elapsed es2"
    by (simp add: st now_exec on_connection_def)
  have "wf_server st"
    unfolding assms(3) by (rule wf_reachable)
  with w have reg: "s \<notin> snd ` set (userSockets st)"
    by (auto simp: wf_server_def waiting_def)
  have late: "\<not> connected (sockets st ! s) \<and> authTimeout (sockets st ! s) = Fired"
    if "AUTH_TIMEOUT \<le> elapsed es2"
    using w n that by (auto simp: waiting_def)
  have early: "connected (sockets st ! s)"
    if "elapsed es2 < AUTH_TIMEOUT" "Disconnect s \<notin> set es2"
    unfolding st using w1 c1 assms(2) that(2)
  proof (rule open_exec)
    show "now (exec ?st1 es2) < ?T"
      using n that(1) by (simp add: st)
  qed
  from w reg late early show ?thesis
    by (auto simp: waiting_def)
qed


theorem never_authenticated_witness:
  "1 = length (sockets (exec init_server [Connect, Authenticate 0 (Some ''admin_42'')])) \<and>
   (\<forall>u. Authenticate 1 u \<notin> set [Elapse 10000, Authenticate 0 (Some ''user_x''), Elapse 20000]) \<and>
   AUTH_TIMEOUT \<le> elapsed [Elapse 10000, Authenticate 0 (Some ''user_x''), Elapse 20000] \<and>
   \<not> connected (sockets (exec init_server ([Connect, Authenticate 0 (Some ''admin_42'')] @
       Connect # [Elapse 10000, Authenticate 0 (Some ''user_x''), Elapse 20000])) ! 1) \<and>
   1 \<notin> snd ` set (userSockets (exec init_server ([Connect, Authenticate 0 (Some ''admin_42'')] @
       Connect # [Elapse 10000, Authenticate 0 (Some ''user_x''), Elapse 20000]))) \<and>
   (\<forall>u. Authenticate 1 u \<notin> set [Elapse 29999]) \<and>
   elapsed [Elapse 29999] < AUTH_TIMEOUT \<and> Disconnect 1 \<notin> set [Elapse 29999] \<and>
   connected (sockets (exec init_server ([Connect, Authenticate 0 (Some ''admin_42'')] @
       Connect # [Elapse 29999])) ! 1)"
proof -
  have s: "1 = length (sockets (exec init_server [Connect, Authenticate 0 (Some ''admin_42'')]))"
    by (simp add: handler_defs classifier_defs)
  have a: "\<forall>u. Authenticate 1 u \<notin> set [Elapse 10000, Authenticate 0 (Some ''user_x''), Elapse 20000]"
    by simp
  have t: "AUTH_TIMEOUT \<le> elapsed [Elapse 10000, Authenticate 0 (Some ''user_x''), Elapse 20000]"
    by (simp add: AUTH_TIMEOUT_def)
  have a': "\<forall>u. Authenticate 1 u \<notin> set [Elapse 29999]"
    by simp
  have t': "elapsed [Elapse 29999] < AUTH_TIMEOUT \<and> Disconnect 1 \<notin> set [Elapse 29999]"
    by (simp add: AUTH_TIMEOUT_def)
  note T = never_authenticated [OF s a refl]
  note T' = never_authenticated [OF s a' refl]
  have c1: "\<not> connected (sockets (exec init_server ([Connect, Authenticate 0 (Some ''admin_42'')] @
       Connect # [Elapse 10000, Authenticate 0 (Some ''user_x''), Elapse 20000])) ! 1)"
    using T [THEN conjunct2, THEN conjunct2, THEN conjunct1, THEN mp, OF t] by (rule conjunct1)
  have c2: "1 \<notin> snd ` set (userSockets (exec init_server ([Connect, Authenticate 0 (Some ''admin_42'')] @
       Connect # [Elapse 10000, Authenticate 0 (Some ''user_x''), Elapse 20000])))"
    using T by (rule conjunct1)
  have c3: "connected (sockets (exec init_server ([Connect, Authenticate 0 (Some ''admin_42'')] @
       Connect # [Elapse 29999])) ! 1)"
    using T' [THEN conjunct2, THEN conjunct2, THEN conjunct2, THEN mp, OF t'] .
  from t' have t1: "elapsed [Elapse 29999] < AUTH_TIMEOUT" and t2: "Disconnect 1 \<notin> set [Elapse 29999]"
    by (rule conjunct1, rule conjunct2)
  from s a t c1 c2 a' t1 t2 c3 show ?thesis
    by (intro conjI)
qed

section \<open>An identity the classifier rejects\<close>

text \<open>
  Claim C2 as it was stated does not hold.
  A connection sends the identity \<^verbatim>\<open>bob\<close>, which the classifier rejects, one second
  after connecting. Ninety seconds after connecting it is still open and still without
  identity: the deadline did not fire.
\<close>

theorem invalid_attempt_counterexample:
  "\<not> valid (validateUserType (Some ''bob'')) \<and>
   AUTH_TIMEOUT \<le> elapsed [Elapse 1000, Authenticate 0 (Some ''bob''), Elapse 29000, Elapse 60000] \<and>
   userId (sockets (exec init_server
     [Connect, Elapse 1000, Authenticate 0 (Some ''bob''), Elapse 29000, Elapse 60000]) ! 0) = None \<and>
   connected (sockets (exec init_server
     [Connect, Elapse 1000, Authenticate 0 (Some ''bob''), Elapse 29000, Elapse 60000]) ! 0)"
  by (simp add: handler_defs classifier_defs)

lemma on_authenticate_self:
  "s < length (sockets st) \<Longrightarrow>
   connected (sockets (snd (on_authenticate s uid st)) ! s) = connected (sockets st ! s) \<and>
   authTimeout (sockets (snd (on_authenticate s uid st)) ! s) = clearTimeout (authTimeout (sockets st ! s))"
  by (simp add: on_authenticate_def upd_socket_def Let_def split: validation.split option.split)

lemma clearTimeout_off: "clearTimeout t \<noteq> Pending d"
  by (cases t) simp_all

lemma timer_off_step:
  assumes "timer_off s st" and "e \<noteq> Disconnect s"
  shows "timer_off s (snd (step e st))"
proof (cases e)
  case Connect
  with assms show ?thesis
    by (auto simp: timer_off_def live_def on_connection_def nth_append)
next
  case (Authenticate s' u)
  show ?thesis
  proof (cases "s' = s")
    case True
    with assms Authenticate on_authenticate_self [of s st u] show ?thesis
      by (auto simp: timer_off_def live_def on_authenticate_frame clearTimeout_off)
  next
    case False
    with assms Authenticate show ?thesis
      by (auto simp: timer_off_def live_def on_authenticate_frame)
  qed
next
  case (Reconnect s' n)
  with assms show ?thesis
    by (auto simp: timer_off_def live_def on_reconnect_frame)
next
  case (Disconnect s')
  with assms have "s' \<noteq> s" by auto
  with assms Disconnect show ?thesis
    by (auto simp: timer_off_def live_def)
next
  case (Elapse d)
  with assms show ?thesis
    by (auto simp: timer_off_def live_def elapse_socket timer_effect_def split: timer.split)
qed

lemma timer_off_exec:
  assumes "timer_off s st" and "Disconnect s \<notin> set es"
  shows "timer_off s (exec st es)"
  using assms
proof (induction es arbitrary: st)
  case Nil
  then show ?case by simp
next
  case (Cons e es)
  from Cons.prems have "timer_off s (snd (step e st))"
    by (intro timer_off_step) auto
  with Cons show ?case by simp
qed

text \<open>
  Claim C2, as the code has it. When a live connection without identity submits an
  identity the classifier rejects, the server emits \<^verbatim>\<open>auth_error\<close> with the
  classifier's message to it, the registry is unchanged, and the connection stays open
  and without identity. The handler has cancelled the deadline timer before validating,
  so the timer is no longer armed afterwards, and through any later events in which the
  connection does not disconnect itself, however much time they take, it stays open.
\<close>

theorem invalid_identity_rejected:
  assumes "live s st" and "userId (sockets st ! s) = None"
    and "validateUserType uid = Invalid msg"
    and "st' = snd (step (Authenticate s uid) st)"
    and "Disconnect s \<notin> set es"
  shows "fst (step (Authenticate s uid) st) =
           [(ToSocket s, ''auth_error'', [(''message'', Some msg)])] \<and>
         userSockets st' = userSockets st \<and>
         live s st' \<and> userId (sockets st' ! s) = None \<and>
         (\<forall>t. authTimeout (sockets st' ! s) \<noteq> Pending t) \<and>
         live s (exec st' es)"
proof -
  note eq = authenticate_invalid [OF assms(1,3)]
  have st': "st' = st\<lparr>sockets := (sockets st)[s := (sockets st ! s)
          \<lparr>authTimeout := clearTimeout (authTimeout (sockets st ! s))\<rparr>]\<rparr>"
    unfolding assms(4) eq by simp
  have out: "fst (step (Authenticate s uid) st) =
           [(ToSocket s, ''auth_error'', [(''message'', Some msg)])]"
    unfolding eq by simp
  have l: "live s st'" and u: "userId (sockets st' ! s) = None"
    and off: "\<forall>t. authTimeout (sockets st' ! s) \<noteq> Pending t"
    using assms(1,2) by (simp_all add: st' live_def clearTimeout_off)
  from l off have "timer_off s st'"
    by (simp add: timer_off_def)
  then have "timer_off s (exec st' es)"
    using assms(5) by (rule timer_off_exec)
  then have "live s (exec st' es)"
    by (simp add: timer_off_def)
  with out l u off show ?thesis
    by (simp add: st')
qed

theorem invalid_identity_rejected_witness:
  "live 0 (exec init_server [Connect, Elapse 1000]) \<and>
   userId (sockets (exec init_server [Connect, Elapse 1000]) ! 0) = None \<and>
   validateUserType (Some ''bob'') = Invalid ''Invalid userId format'' \<and>
   Disconnect 0 \<notin> set [Elapse 29000, Elapse 60000] \<and>
   fst (step (Authenticate 0 (Some ''bob'')) (exec init_server [Connect, Elapse 1000])) =
     [(ToSocket 0, ''auth_error'', [(''message'', Some ''Invalid userId format'')])] \<and>
   live 0 (exec (snd (step (Authenticate 0 (Some ''bob'')) (exec init_server [Connect, Elapse 1000])))
     [Elapse 29000, Elapse 60000])"
proof -
  have l: "live 0 (exec init_server [Connect, Elapse 1000])"
    by (simp add: handler_defs)
  have u: "userId (sockets (exec init_server [Connect, Elapse 1000]) ! 0) = None"
    by (simp add: handler_defs)
  have v: "validateUserType (Some ''bob'') = Invalid ''Invalid userId format''"
    by (simp add: classifier_defs)
  have d: "Disconnect 0 \<notin> set [Elapse 29000, Elapse 60000]"
    by simp
  note T = invalid_identity_rejected [OF l u v refl d]
  have c1: "fst (step (Authenticate 0 (Some ''bob'')) (exec init_server [Connect, Elapse 1000])) =
     [(ToSocket 0, ''auth_error'', [(''message'', Some ''Invalid userId format'')])]"
    using T by (rule conjunct1)
  have c2: "live 0 (exec (snd (step (Authenticate 0 (Some ''bob'')) (exec init_server [Connect, Elapse 1000])))
     [Elapse 29000, Elapse 60000])"
    using T by (elim conjE)
  from l u v d c1 c2 show ?thesis
    by (intro conjI)
qed

section \<open>Notifications to all admins\<close>

lemma for_admin_entries_filter:
  "for_admin_entries m body =
   concat (map (\<lambda>(i, sid). body i sid)
     (filter (\<lambda>(i, sid). role (validateUserType (Some i)) = Some ''admin'') m))"
  by (induction m) (auto simp: for_admin_entries_def role_admin_iff)

lemma for_admin_entries_single:
  "for_admin_entries m (\<lambda>i sid. [f i sid]) =
   map (\<lambda>(i, sid). f i sid)
     (filter (\<lambda>(i, sid). role (validateUserType (Some i)) = Some ''admin'') m)"
  unfolding for_admin_entries_filter by (induction m) auto

lemma single_loop_reach:
  "(\<exists>x \<in> set (map (\<lambda>(i, sid). (ToSocket sid, e, p)) m). reaches (fst x) s) \<longleftrightarrow> s \<in> snd ` set m"
  by (force simp: image_iff)

lemma single_loop_mem:
  "(i, s) \<in> set m \<Longrightarrow> (ToSocket s, e, p) \<in> set (map (\<lambda>(i, sid). (ToSocket sid, e, p)) m)"
  by force

lemma pair_loop_reach:
  "(\<exists>x \<in> set (concat (map (\<lambda>(i, sid). [(ToSocket sid, e1, p1), (ToSocket sid, e2, p2)]) m)).
      reaches (fst x) s) \<longleftrightarrow> s \<in> snd ` set m"
  by (force simp: image_iff)

lemma pair_loop_mem:
  "(i, s) \<in> set m \<Longrightarrow>
   (ToSocket s, e1, p1) \<in> set (concat (map (\<lambda>(i, sid). [(ToSocket sid, e1, p1), (ToSocket sid, e2, p2)]) m)) \<and>
   (ToSocket s, e2, p2) \<in> set (concat (map (\<lambda>(i, sid). [(ToSocket sid, e1, p1), (ToSocket sid, e2, p2)]) m))"
  by force

lemma review_loop_mem:
  "(i, s) \<in> set m \<Longrightarrow>
   (ToSocket s, e1, f i) \<in> set (concat (map (\<lambda>(i, sid). [(ToSocket sid, e1, f i), (ToAll, e2, g i)]) m)) \<and>
   (ToAll, e2, g i) \<in> set (concat (map (\<lambda>(i, sid). [(ToSocket sid, e1, f i), (ToAll, e2, g i)]) m))"
  by force

lemma review_loop_direct:
  "x \<in> set (concat (map (\<lambda>(i, sid). [(ToSocket sid, e1, f i), (ToAll, e2, g i)]) m)) \<Longrightarrow>
   fst x = ToSocket s \<Longrightarrow> s \<in> snd ` set m \<and> fst (snd x) = e1"
  by (force simp: image_iff)

lemma review_loop_all:
  "x \<in> set (concat (map (\<lambda>(i, sid). [(ToSocket sid, e1, f i), (ToAll, e2, g i)]) m)) \<Longrightarrow>
   fst x = ToAll \<Longrightarrow> fst (snd x) = e2"
  by force

text \<open>
  Claim C6 as it was stated does not hold.
  An admin and a user are registered, each on its own connection. The loop over the
  admins in \<^verbatim>\<open>/api/review-image-v2\<close> emits \<^verbatim>\<open>admin-notification-broadcast\<close> with
  \<^verbatim>\<open>io.emit\<close>, which is addressed to every connection: the user's connection, which is
  not the handle of any admin entry, receives an event of the send to all admins.
\<close>

theorem all_admins_broadcast_counterexample:
  "userSockets (exec init_server
      [Connect, Authenticate 0 (Some ''admin_42''), Connect, Authenticate 1 (Some ''user_bob'')]) =
     [(''admin_42'', 0), (''user_bob'', 1)] \<and>
   role (validateUserType (Some ''user_bob'')) = Some ''user'' \<and>
   live 1 (exec init_server
      [Connect, Authenticate 0 (Some ''admin_42''), Connect, Authenticate 1 (Some ''user_bob'')]) \<and>
   review_admins (exec init_server
      [Connect, Authenticate 0 (Some ''admin_42''), Connect, Authenticate 1 (Some ''user_bob'')])
      (\<lambda>a. ()) (\<lambda>a. ()) =
     [(ToSocket 0, ''image-reviewed'', ()), (ToAll, ''admin-notification-broadcast'', ())] \<and>
   reaches ToAll 1"
  by (simp add: handler_defs classifier_defs review_admins_def for_admin_entries_def)

text \<open>
  Claim C6, as the code has it. Let \<open>admins\<close> be the registry entries whose identity the
  classifier gives the role admin, in the order of the registry; no entry whose identity
  has the role user is among them. Each of the four sends to all admins iterates the
  registry and emits once per entry of \<open>admins\<close>: \<^verbatim>\<open>/save-canvas\<close>, \<^verbatim>\<open>/analyze-damage\<close> and
  \<^verbatim>\<open>/predict\<close> emit their events to the handle of that entry and to nothing else, so
  every registered admin identity is delivered to and a connection that is not the handle
  of an admin entry is not reached. \<^verbatim>\<open>/api/review-image-v2\<close> emits \<^verbatim>\<open>image-reviewed\<close> to
  the handle of the entry in the same way, and with it, for each admin entry, a
  broadcast of \<^verbatim>\<open>admin-notification-broadcast\<close> to all connections; these broadcasts
  are the only emissions of a send to all admins that reach other connections.
\<close>

theorem all_admins_delivery:
  assumes "admins = filter (\<lambda>(i, sid). role (validateUserType (Some i)) = Some ''admin'') (userSockets st)"
  shows "save_canvas_admins st p = map (\<lambda>(i, sid). (ToSocket sid, ''prediction-complete'', p)) admins \<and>
         analyze_damage_admins st q = map (\<lambda>(i, sid). (ToSocket sid, ''analysis-complete'', q)) admins \<and>
         predict_admins st p_entry p_admin =
           concat (map (\<lambda>(i, sid). [(ToSocket sid, ''new-road-entry'', p_entry),
                                    (ToSocket sid, ''admin-notification'', p_admin)]) admins) \<and>
         review_admins st r_admin r_all =
           concat (map (\<lambda>(i, sid). [(ToSocket sid, ''image-reviewed'', r_admin i),
                                    (ToAll, ''admin-notification-broadcast'', r_all i)]) admins) \<and>
         (\<forall>i sid. (i, sid) \<in> set (userSockets st) \<and>
            role (validateUserType (Some i)) = Some ''admin'' \<longrightarrow>
              (ToSocket sid, ''prediction-complete'', p) \<in> set (save_canvas_admins st p) \<and>
              (ToSocket sid, ''analysis-complete'', q) \<in> set (analyze_damage_admins st q) \<and>
              (ToSocket sid, ''new-road-entry'', p_entry) \<in> set (predict_admins st p_entry p_admin) \<and>
              (ToSocket sid, ''admin-notification'', p_admin) \<in> set (predict_admins st p_entry p_admin) \<and>
              (ToSocket sid, ''image-reviewed'', r_admin i) \<in> set (review_admins st r_admin r_all) \<and>
              (ToAll, ''admin-notification-broadcast'', r_all i) \<in> set (review_admins st r_admin r_all)) \<and>
         (\<forall>i sid. (i, sid) \<in> set (userSockets st) \<and>
            role (validateUserType (Some i)) = Some ''user'' \<longrightarrow> (i, sid) \<notin> set admins) \<and>
         (\<forall>sid. sid \<notin> snd ` set admins \<longrightarrow>
            \<not> (\<exists>x \<in> set (save_canvas_admins st p). reaches (fst x) sid) \<and>
            \<not> (\<exists>x \<in> set (analyze_damage_admins st q). reaches (fst x) sid) \<and>
            \<not> (\<exists>x \<in> set (predict_admins st p_entry p_admin). reaches (fst x) sid) \<and>
            \<not> (\<exists>x \<in> set (review_admins st r_admin r_all).
                  fst x = ToSocket sid)) \<and>
         \<not> (\<exists>x \<in> set (review_admins st r_admin r_all).
               fst x = ToAll \<and> fst (snd x) \<noteq> ''admin-notification-broadcast'')"
proof -
  have save: "save_canvas_admins st p = map (\<lambda>(i, sid). (ToSocket sid, ''prediction-complete'', p)) admins"
    by (simp add: assms save_canvas_admins_def for_admin_entries_single)
  have ana: "analyze_damage_admins st q = map (\<lambda>(i, sid). (ToSocket sid, ''analysis-complete'', q)) admins"
    by (simp add: assms analyze_damage_admins_def for_admin_entries_single)
  have pred: "predict_admins st p_entry p_admin =
           concat (map (\<lambda>(i, sid). [(ToSocket sid, ''new-road-entry'', p_entry),
                                    (ToSocket sid, ''admin-notification'', p_admin)]) admins)"
    by (simp add: assms predict_admins_def for_admin_entries_filter)
  have rev: "review_admins st r_admin r_all =
           concat (map (\<lambda>(i, sid). [(ToSocket sid, ''image-reviewed'', r_admin i),
                                    (ToAll, ''admin-notification-broadcast'', r_all i)]) admins)"
    by (simp add: assms review_admins_def for_admin_entries_filter)
  have every: "(ToSocket sid, ''prediction-complete'', p) \<in> set (save_canvas_admins st p) \<and>
              (ToSocket sid, ''analysis-complete'', q) \<in> set (analyze_damage_admins st q) \<and>
              (ToSocket sid, ''new-road-entry'', p_entry) \<in> set (predict_admins st p_entry p_admin) \<and>
              (ToSocket sid, ''admin-notification'', p_admin) \<in> set (predict_admins st p_entry p_admin) \<and>
              (ToSocket sid, ''image-reviewed'', r_admin i) \<in> set (review_admins st r_admin r_all) \<and>
              (ToAll, ''admin-notification-broadcast'', r_all i) \<in> set (review_admins st r_admin r_all)"
    if "(i, sid) \<in> set (userSockets st) \<and> role (validateUserType (Some i)) = Some ''admin''"
    for i sid
  proof -
    from that have m: "(i, sid) \<in> set admins"
      by (simp add: assms)
    note a = single_loop_mem [OF m, of "''prediction-complete''" p]
    note b = single_loop_mem [OF m, of "''analysis-complete''" q]
    note c = pair_loop_mem [OF m, of "''new-road-entry''" p_entry "''admin-notification''" p_admin]
    note d = review_loop_mem [OF m, of "''image-reviewed''" r_admin
        "''admin-notification-broadcast''" r_all]
    from a b c d show ?thesis
      unfolding save ana pred rev by (elim conjE, intro conjI)
  qed
  have users: "\<forall>i sid. (i, sid) \<in> set (userSockets st) \<and>
            role (validateUserType (Some i)) = Some ''user'' \<longrightarrow> (i, sid) \<notin> set admins"
    by (auto simp: assms)
  have none: "\<not> (\<exists>x \<in> set (save_canvas_admins st p). reaches (fst x) sid) \<and>
            \<not> (\<exists>x \<in> set (analyze_damage_admins st q). reaches (fst x) sid) \<and>
            \<not> (\<exists>x \<in> set (predict_admins st p_entry p_admin). reaches (fst x) sid) \<and>
            \<not> (\<exists>x \<in> set (review_admins st r_admin r_all). fst x = ToSocket sid)"
    if n: "sid \<notin> snd ` set admins" for sid
  proof -
    have r: "\<not> (\<exists>x \<in> set (review_admins st r_admin r_all). fst x = ToSocket sid)"
    proof
      assume "\<exists>x \<in> set (review_admins st r_admin r_all). fst x = ToSocket sid"
      then obtain x where x: "x \<in> set (review_admins st r_admin r_all)" and d: "fst x = ToSocket sid"
        by (rule bexE)
      from review_loop_direct [OF x [unfolded rev] d] n show False
        by simp
    qed
    have a: "\<not> (\<exists>x \<in> set (save_canvas_admins st p). reaches (fst x) sid)"
      unfolding save single_loop_reach by (rule n)
    have b: "\<not> (\<exists>x \<in> set (analyze_damage_admins st q). reaches (fst x) sid)"
      unfolding ana single_loop_reach by (rule n)
    have c: "\<not> (\<exists>x \<in> set (predict_admins st p_entry p_admin). reaches (fst x) sid)"
      unfolding pred pair_loop_reach by (rule n)
    from a b c r show ?thesis
      by (intro conjI)
  qed
  have bc: "\<not> (\<exists>x \<in> set (review_admins st r_admin r_all).
               fst x = ToAll \<and> fst (snd x) \<noteq> ''admin-notification-broadcast'')"
  proof
    assume "\<exists>x \<in> set (review_admins st r_admin r_all).
               fst x = ToAll \<and> fst (snd x) \<noteq> ''admin-notification-broadcast''"
    then obtain x where x: "x \<in> set (review_admins st r_admin r_all)"
      and d: "fst x = ToAll \<and> fst (snd x) \<noteq> ''admin-notification-broadcast''"
      by (rule bexE)
    from review_loop_all [OF x [unfolded rev] d [THEN conjunct1]] d [THEN conjunct2] show False
      by (rule notE [rotated])
  qed
  have all: "\<forall>i sid. (i, sid) \<in> set (userSockets st) \<and>
            role (validateUserType (Some i)) = Some ''admin'' \<longrightarrow>
              (ToSocket sid, ''prediction-complete'', p) \<in> set (save_canvas_admins st p) \<and>
              (ToSocket sid, ''analysis-complete'', q) \<in> set (analyze_damage_admins st q) \<and>
              (ToSocket sid, ''new-road-entry'', p_entry) \<in> set (predict_admins st p_entry p_admin) \<and>
              (ToSocket sid, ''admin-notification'', p_admin) \<in> set (predict_admins st p_entry p_admin) \<and>
              (ToSocket sid, ''image-reviewed'', r_admin i) \<in> set (review_admins st r_admin r_all) \<and>
              (ToAll, ''admin-notification-broadcast'', r_all i) \<in> set (review_admins st r_admin r_all)"
    using every by blast
  have no: "\<forall>sid. sid \<notin> snd ` set admins \<longrightarrow>
            \<not> (\<exists>x \<in> set (save_canvas_admins st p). reaches (fst x) sid) \<and>
            \<not> (\<exists>x \<in> set (analyze_damage_admins st q). reaches (fst x) sid) \<and>
            \<not> (\<exists>x \<in> set (predict_admins st p_entry p_admin). reaches (fst x) sid) \<and>
            \<not> (\<exists>x \<in> set (review_admins st r_admin r_all). fst x = ToSocket sid)"
    using none by blast
  from save ana pred rev all users no bc show ?thesis
    by (intro conjI)
qed


theorem all_admins_delivery_witness:
  "(''admin_42'', 0) \<in> set (userSockets (exec init_server
      [Connect, Authenticate 0 (Some ''admin_42''), Connect, Authenticate 1 (Some ''user_bob'')])) \<and>
   role (validateUserType (Some ''admin_42'')) = Some ''admin'' \<and>
   (ToSocket 0, ''prediction-complete'', ()) \<in> set (save_canvas_admins (exec init_server
      [Connect, Authenticate 0 (Some ''admin_42''), Connect, Authenticate 1 (Some ''user_bob'')]) ()) \<and>
   (ToSocket 0, ''image-reviewed'', ()) \<in> set (review_admins (exec init_server
      [Connect, Authenticate 0 (Some ''admin_42''), Connect, Authenticate 1 (Some ''user_bob'')])
      (\<lambda>a. ()) (\<lambda>a. ())) \<and>
   (''user_bob'', 1) \<in> set (userSockets (exec init_server
      [Connect, Authenticate 0 (Some ''admin_42''), Connect, Authenticate 1 (Some ''user_bob'')])) \<and>
   role (validateUserType (Some ''user_bob'')) = Some ''user'' \<and>
   (''user_bob'', 1) \<notin> set (filter (\<lambda>(i, sid). role (validateUserType (Some i)) = Some ''admin'')
      (userSockets (exec init_server
        [Connect, Authenticate 0 (Some ''admin_42''), Connect, Authenticate 1 (Some ''user_bob'')]))) \<and>
   1 \<notin> snd ` set (filter (\<lambda>(i, sid). role (validateUserType (Some i)) = Some ''admin'')
      (userSockets (exec init_server
        [Connect, Authenticate 0 (Some ''admin_42''), Connect, Authenticate 1 (Some ''user_bob'')]))) \<and>
   \<not> (\<exists>x \<in> set (predict_admins (exec init_server
      [Connect, Authenticate 0 (Some ''admin_42''), Connect, Authenticate 1 (Some ''user_bob'')]) () ()).
        reaches (fst x) 1)"
proof -
  let ?st = "exec init_server
      [Connect, Authenticate 0 (Some ''admin_42''), Connect, Authenticate 1 (Some ''user_bob'')]"
  have k: "userSockets ?st = [(''admin_42'', 0), (''user_bob'', 1)]"
    by (simp add: handler_defs classifier_defs)
  have ra: "role (validateUserType (Some ''admin_42'')) = Some ''admin''"
    and ru: "role (validateUserType (Some ''user_bob'')) = Some ''user''"
    by (simp_all add: classifier_defs)
  have ma: "(''admin_42'', 0) \<in> set (userSockets ?st)"
    and mu: "(''user_bob'', 1) \<in> set (userSockets ?st)"
    unfolding k by simp_all
  have n: "1 \<notin> snd ` set (filter (\<lambda>(i, sid). role (validateUserType (Some i)) = Some ''admin'')
      (userSockets ?st))"
    unfolding k by (simp add: ra ru)
  note T = all_admins_delivery [OF refl, of ?st "()" "()" "()" "()" "\<lambda>a. ()" "\<lambda>a. ()"]
  note A = T [THEN conjunct2, THEN conjunct2, THEN conjunct2, THEN conjunct2, THEN conjunct1,
      THEN spec, THEN spec, THEN mp, OF conjI, OF ma ra]
  note U = T [THEN conjunct2, THEN conjunct2, THEN conjunct2, THEN conjunct2, THEN conjunct2,
      THEN conjunct1, THEN spec, THEN spec, THEN mp, OF conjI, OF mu ru]
  note N = T [THEN conjunct2, THEN conjunct2, THEN conjunct2, THEN conjunct2, THEN conjunct2,
      THEN conjunct2, THEN conjunct1, THEN spec, THEN mp, OF n]
  have c1: "(ToSocket 0, ''prediction-complete'', ()) \<in> set (save_canvas_admins ?st ())"
    using A by (rule conjunct1)
  have c2: "(ToSocket 0, ''image-reviewed'', ()) \<in> set (review_admins ?st (\<lambda>a. ()) (\<lambda>a. ()))"
    using A [THEN conjunct2, THEN conjunct2, THEN conjunct2, THEN conjunct2] by (rule conjunct1)
  have c3: "\<not> (\<exists>x \<in> set (predict_admins ?st () ()). reaches (fst x) 1)"
    using N [THEN conjunct2, THEN conjunct2] by (rule conjunct1)
  from ma ra c1 c2 mu ru U n c3 show ?thesis
    by (intro conjI)
qed

section \<open>Sending does not change the registry\<close>

lemma user_notification_send_state:
  "state_after (user_notification_send st i type p) = st"
  by (simp add: user_notification_send_def split: option.split)


text \<open>
  Claim C7. No route that sends notifications changes the server state, so the
  registry after any send equals the registry before, whatever the target, the event and
  the payload. (The one handler that may not return is that of \<^verbatim>\<open>/predict\<close>: when
  saving the entry throws, the process ends before anything is sent.) In particular,
  sending to a specific identity that has no registry entry reports that the user is
  not connected, emits nothing and leaves the state as it is.
\<close>

theorem send_leaves_registry:
  "state_after (user_notification_send st i type p1) = st \<and>
   state_after (user_notification st uid type p2 findOne) = st \<and>
   state_after (patch_feedback st findById save p3) = st \<and>
   state_after (reply_feedback st uid findById mail save p4) = st \<and>
   map_option state_after (predict_close st code isRoad write uid save p5 p6 p7) =
     (if code = 0 \<and> isRoad \<and> write \<noteq> Throws \<and> truthy uid \<and> save = Throws then None
      else Some st) \<and>
   snd (snd (save_canvas st hasFields uid save p8)) = st \<and>
   snd (analyze_damage_notify st p9) = st \<and>
   state_after (review_image_v2 st hasFields reviewerId find1 update find2 p10 p11 p12 p13) = st \<and>
   (jsmap_get i (userSockets st) = None \<longrightarrow>
      user_notification_send st i type p1 =
        \<lparr>reply = Reply 200 ''User not connected, notification queued'', emitted = [],
         written = [], state_after = st\<rparr>)"
proof -
  have a: "state_after (user_notification_send st i type p1) = st"
    by (rule user_notification_send_state)
  have b: "state_after (user_notification st uid type p2 findOne) = st"
    by (simp add: user_notification_def user_notification_send_state split: option.split io.split)
  have c: "state_after (patch_feedback st findById save p3) = st"
    by (simp add: patch_feedback_def split: option.split io.split)
  have d: "state_after (reply_feedback st uid findById mail save p4) = st"
    by (simp add: reply_feedback_def split: option.split io.split)
  have e: "map_option state_after (predict_close st code isRoad write uid save p5 p6 p7) =
     (if code = 0 \<and> isRoad \<and> write \<noteq> Throws \<and> truthy uid \<and> save = Throws then None
      else Some st)"
    by (simp add: predict_close_def Let_def split: io.split)
  have f: "snd (snd (save_canvas st hasFields uid save p8)) = st"
    by (simp add: save_canvas_def split: option.split io.split)
  have g: "snd (analyze_damage_notify st p9) = st"
    by (simp add: analyze_damage_notify_def)
  have h: "state_after (review_image_v2 st hasFields reviewerId find1 update find2 p10 p11 p12 p13) = st"
    by (simp add: review_image_v2_def split: option.split io.split)
  have n: "jsmap_get i (userSockets st) = None \<longrightarrow>
      user_notification_send st i type p1 =
        \<lparr>reply = Reply 200 ''User not connected, notification queued'', emitted = [],
         written = [], state_after = st\<rparr>"
    by (simp add: user_notification_send_def)
  from a b c d e f g h n show ?thesis
    by (intro conjI)
qed

theorem send_leaves_registry_witness:
  "jsmap_get ''user_bob'' (userSockets (exec init_server [Connect, Authenticate 0 (Some ''admin_42'')]))
     = None \<and>
   user_notification_send (exec init_server [Connect, Authenticate 0 (Some ''admin_42'')])
     ''user_bob'' None () =
     \<lparr>reply = Reply 200 ''User not connected, notification queued'', emitted = [],
      written = [],
      state_after = exec init_server [Connect, Authenticate 0 (Some ''admin_42'')]\<rparr>"
proof -
  let ?st = "exec init_server [Connect, Authenticate 0 (Some ''admin_42'')]"
  have g: "jsmap_get ''user_bob'' (userSockets ?st) = None"
    by (simp add: handler_defs classifier_defs)
  note T = send_leaves_registry [of ?st "''user_bob''" None "()"]
  have c: "user_notification_send ?st ''user_bob'' None () =
     \<lparr>reply = Reply 200 ''User not connected, notification queued'', emitted = [],
      written = [], state_after = ?st\<rparr>"
    using T [THEN conjunct2, THEN conjunct2, THEN conjunct2, THEN conjunct2, THEN conjunct2,
      THEN conjunct2, THEN conjunct2, THEN conjunct2, THEN mp, OF g] .
  from g c show ?thesis
    by (intro conjI)
qed

section \<open>A target that is not connected\<close>



end
